theory Spec2Isabelle
  imports Complex_Main "HOL-Library.Word"
begin

section \<open>Values shared by the relay and the client\<close>

text \<open>
  A call into a library or into the platform either returns a value or throws a
  JavaScript \<open>Error\<close>, of which the programs only ever read \<open>message\<close>.
\<close>

datatype 'a outcome = Returns 'a | Throws string

text \<open>
  The JSON text frames of the relay: \<open>{type: 'audio', data}\<close>,
  \<open>{type: 'status', message}\<close> and \<open>{type: 'error', message}\<close>.
\<close>

datatype envelope = Audio string | Status string | Error string

section \<open>The relay: \<open>wss.on('connection', ...)\<close>\<close>

subsection \<open>Upstream messages\<close>

text \<open>
  Of an upstream message the relay reads \<open>message.data\<close> (a base64 string or
  \<open>undefined\<close>) and \<open>message.serverContent.turnComplete\<close> (with
  \<open>serverContent\<close> possibly missing; a missing \<open>turnComplete\<close> is falsy, here
  \<open>False\<close>).
\<close>

record server_content =
  turnComplete :: bool

record message =
  data :: "string option"
  serverContent :: "server_content option"

text \<open>
  Lines 61 to 63: \<open>if (message.data) ws.send(JSON.stringify({type: 'audio', data:
  message.data}))\<close>. An undefined and an empty string are both falsy.
\<close>

definition forward :: "message \<Rightarrow> envelope list" where
  "forward m = (case data m of None \<Rightarrow> [] | Some d \<Rightarrow> if d = [] then [] else [Audio d])"

text \<open>Line 64: \<open>message.serverContent && message.serverContent.turnComplete\<close>.\<close>

definition turn_complete :: "message \<Rightarrow> bool" where
  "turn_complete m = (case serverContent m of None \<Rightarrow> False | Some c \<Rightarrow> turnComplete c)"

subsection \<open>One turn collection on its own: \<open>waitMessage\<close> and \<open>handleTurn\<close>\<close>

text \<open>
  \<open>waitMessage\<close> (lines 39 to 51) shifts the head of \<open>responseQueue\<close>; on an empty
  queue it sleeps 100 ms and looks again. While it sleeps the \<open>onmessage\<close> callback
  (lines 79 to 82) pushes what the upstream delivers at the back of the queue; while it
  does not sleep nothing else runs. This subsection takes one collection on its own, with
  no other \<open>handleTurn\<close> call taking from the queue while it sleeps; the state machine
  of the next subsection has every collection of a connection, and the two are related
  in the properties below. The environment here is therefore the list of batches the
  upstream delivers, one batch (possibly empty) per sleep. When the batches are used up
  and the queue is empty, nothing will ever arrive and the loop polls forever: the
  function does not return, which is the value \<open>None\<close>.
\<close>

fun waitMessage ::
  "message list \<Rightarrow> message list list \<Rightarrow> (message \<times> message list \<times> message list list) option" where
  "waitMessage (m # queue) arrivals = Some (m, queue, arrivals)"
| "waitMessage [] [] = None"
| "waitMessage [] (batch # arrivals) = waitMessage batch arrivals"

text \<open>
  \<open>handleTurn\<close> (lines 54 to 69). \<open>Returned turns sent queue arrivals\<close>: the function
  returned \<open>turns\<close>, having made the \<open>ws.send\<close> calls \<open>sent\<close>, and left \<open>queue\<close> in
  \<open>responseQueue\<close> with \<open>arrivals\<close> still to come. \<open>Stalled turns sent\<close>: it never
  returns (no completion marker ever arrives), having collected and sent that much.
\<close>

datatype turn_result =
    Returned "message list" "envelope list" "message list" "message list list"
  | Stalled "message list" "envelope list"

lemma waitMessage_order:
  "waitMessage queue arrivals = Some (m, queue', arrivals') \<Longrightarrow>
     queue @ concat arrivals = m # queue' @ concat arrivals'"
  by (induction queue arrivals rule: waitMessage.induct) auto

lemma waitMessage_None:
  "waitMessage queue arrivals = None \<Longrightarrow> queue @ concat arrivals = []"
  by (induction queue arrivals rule: waitMessage.induct) auto

function handleTurn ::
  "message list \<Rightarrow> message list list \<Rightarrow> message list \<Rightarrow> envelope list \<Rightarrow> turn_result" where
  "handleTurn queue arrivals turns sent =
     (case waitMessage queue arrivals of
        None \<Rightarrow> Stalled turns sent
      | Some (m, queue', arrivals') \<Rightarrow>
          (let turns' = turns @ [m];
               sent' = sent @ forward m
           in if turn_complete m then Returned turns' sent' queue' arrivals'
              else handleTurn queue' arrivals' turns' sent'))"
  by pat_completeness auto
termination
proof (relation "measure (\<lambda>(queue, arrivals, turns, sent). length (queue @ concat arrivals))")
  show "wf (measure (\<lambda>(queue, arrivals, turns, sent). length (queue @ concat arrivals)))"
    by simp
next
  fix queue arrivals turns sent x2 m y queue' arrivals' turns' sent'
  assume "waitMessage queue arrivals = Some x2" "(m, y) = x2" "(queue', arrivals') = y"
  then have "waitMessage queue arrivals = Some (m, queue', arrivals')"
    by simp
  then have "length (queue @ concat arrivals) = length (m # queue' @ concat arrivals')"
    by (simp only: waitMessage_order)
  then show "((queue', arrivals', turns', sent'), (queue, arrivals, turns, sent))
          \<in> measure (\<lambda>(queue, arrivals, turns, sent). length (queue @ concat arrivals))"
    by simp
qed

declare handleTurn.simps [simp del]

subsection \<open>The connection as an event-driven state machine\<close>

text \<open>
  The calls the handler makes on its collaborators, in the order it makes them:
  \<open>ai.live.connect\<close>, \<open>ws.send\<close>, \<open>ws.close\<close>, \<open>session.sendRealtimeInput\<close> and
  \<open>session.close\<close>.
\<close>

datatype effect =
    Live_connect
  | Ws_send envelope
  | Ws_close
  | Send_realtime_input string
  | Session_close

fun is_upstream_call :: "effect \<Rightarrow> bool" where
  "is_upstream_call Live_connect = True"
| "is_upstream_call (Send_realtime_input b) = True"
| "is_upstream_call Session_close = True"
| "is_upstream_call (Ws_send e) = False"
| "is_upstream_call Ws_close = False"

text \<open>
  Where the handler of line 32 stands: awaiting \<open>ai.live.connect\<close> (line 73), past it
  with the \<open>message\<close> and \<open>close\<close> listeners registered (lines 98 and 143), or returned
  from the \<open>catch\<close> of line 92 without having registered them.
\<close>

datatype phase = Connecting | Established | Failed

text \<open>
  The variables of the closure: \<open>session\<close> (here whether it is non-null), \<open>closed\<close>,
  \<open>responseQueue\<close>; the \<open>turns\<close> array of every \<open>handleTurn\<close> call that is suspended
  in \<open>waitMessage\<close>; and the calls made so far.
\<close>

record relay =
  phase :: phase
  session :: bool
  closed :: bool
  responseQueue :: "message list"
  pending :: "message list list"
  effects :: "effect list"

text \<open>Lines 32 to 36 and the call of line 73.\<close>

definition connection :: relay where
  "connection =
     \<lparr>phase = Connecting, session = False, closed = False, responseQueue = [],
      pending = [], effects = [Live_connect]\<rparr>"

definition ws_send :: "envelope \<Rightarrow> relay \<Rightarrow> relay" where
  "ws_send e s = s\<lparr>effects := effects s @ [Ws_send e]\<rparr>"

text \<open>
  One pass of the loops of \<open>waitMessage\<close> and \<open>handleTurn\<close> for the \<open>i\<close>-th suspended
  collection: \<open>responseQueue.shift()\<close>; on \<open>undefined\<close> sleep again; otherwise push
  the message on \<open>turns\<close>, forward its audio, and return from \<open>handleTurn\<close> on the
  completion marker (the handler of line 98 then only logs and ends).
\<close>

definition poll :: "nat \<Rightarrow> relay \<Rightarrow> relay" where
  "poll i s =
     (case responseQueue s of
        [] \<Rightarrow> s
      | m # queue \<Rightarrow>
          (let s' = s\<lparr>responseQueue := queue,
                       effects := effects s @ map Ws_send (forward m)\<rparr>
           in if turn_complete m
              then s'\<lparr>pending := take i (pending s) @ drop (Suc i) (pending s)\<rparr>
              else s'\<lparr>pending := (pending s)[i := pending s ! i @ [m]]\<rparr>))"

text \<open>
  The \<open>message\<close> listener, lines 98 to 141. \<open>wav\<close> is the outcome of lines 101 to 111
  (the \<open>wavefile\<close> calls, returning \<open>base64Audio\<close>), \<open>submit\<close> that of
  \<open>session.sendRealtimeInput\<close>. Nothing stands between the submission and
  \<open>handleTurn\<close>: the new collection is started whatever the others are doing, and
  makes its first pass at once.
\<close>

definition on_message :: "relay \<Rightarrow> string outcome \<Rightarrow> unit outcome \<Rightarrow> relay" where
  "on_message s wav submit =
     (case wav of
        Throws e \<Rightarrow> ws_send (Error e) s
      | Returns base64Audio \<Rightarrow>
          (case submit of
             Throws e \<Rightarrow> ws_send (Error e) s
           | Returns _ \<Rightarrow>
               poll (length (pending s))
                 (s\<lparr>effects := effects s @ [Send_realtime_input base64Audio],
                    pending := pending s @ [[]]\<rparr>)))"

text \<open>The \<open>close\<close> listener, lines 143 to 147. Nothing reads \<open>closed\<close>.\<close>

definition on_close :: "relay \<Rightarrow> relay" where
  "on_close s =
     (if session s then s\<lparr>closed := True, effects := effects s @ [Session_close]\<rparr>
      else s\<lparr>closed := True\<rparr>)"

text \<open>
  What the event loop dispatches to the connection: the settling of
  \<open>ai.live.connect\<close>, the four upstream callbacks (registered with the call of
  line 73, so they run in every phase), the two client events (their listeners are
  registered only once line 98 is reached; an event that comes earlier, or after the
  \<open>return\<close> of line 95, finds no listener and is lost), and the timer of the
  \<open>i\<close>-th suspended collection.
\<close>

datatype event =
    Connect_returns
  | Connect_throws string
  | Upstream_open
  | Upstream_message message
  | Upstream_error string
  | Upstream_close string
  | Client_message "string outcome" "unit outcome"
  | Client_close
  | Poll nat

fun step :: "relay \<Rightarrow> event \<Rightarrow> relay" where
  "step s Connect_returns =
     (if phase s = Connecting then s\<lparr>phase := Established, session := True\<rparr> else s)"
| "step s (Connect_throws e) =
     (if phase s = Connecting
      then s\<lparr>phase := Failed, effects := effects s @ [Ws_send (Error e), Ws_close]\<rparr>
      else s)"
| "step s Upstream_open = ws_send (Status ''Session opened'') s"
| "step s (Upstream_message m) = s\<lparr>responseQueue := responseQueue s @ [m]\<rparr>"
| "step s (Upstream_error e) = ws_send (Error e) s"
| "step s (Upstream_close reason) = ws_send (Status (''Session closed: '' @ reason)) s"
| "step s (Client_message wav submit) =
     (if phase s = Established then on_message s wav submit else s)"
| "step s Client_close = (if phase s = Established then on_close s else s)"
| "step s (Poll i) = (if i < length (pending s) then poll i s else s)"

definition run :: "relay \<Rightarrow> event list \<Rightarrow> relay" where
  "run s evs = foldl step s evs"

section \<open>The client: \<open>App\<close>\<close>

unbundle bit_operations_syntax

subsection \<open>Data\<close>

type_synonym byte = "8 word"

text \<open>\<open>AudioContext.state\<close> and \<open>WebSocket.readyState\<close>.\<close>

datatype context_state = Suspended | Running | Closed

datatype ready_state = CONNECTING | OPEN | CLOSING | CLOSED

text \<open>
  An \<open>AudioBuffer\<close>: its channel count, its sample rate in Hz and the samples of
  channel 0, each a 32-bit float kept as its bit pattern. \<open>AudioBuffer.duration\<close> is
  the number of sample frames over the sample rate, in seconds. Times are real numbers:
  the rounding of JavaScript's doubles is not modelled.
\<close>

record audio_buffer =
  numberOfChannels :: nat
  sampleRate :: nat
  channel0 :: "32 word list"

definition duration :: "audio_buffer \<Rightarrow> real" where
  "duration b = real (length (channel0 b)) / real (sampleRate b)"

text \<open>
  What \<open>wav.fromScratch(numChannels, sampleRate, bitDepth, samples)\<close> is given
  (line 363); \<open>wav.toBuffer()\<close> serialises exactly this.
\<close>

record wave_file =
  wavChannels :: nat
  wavSampleRate :: nat
  wavBitDepth :: string
  wavSamples :: "16 word list"

text \<open>
  The refs and states of the component (lines 159 to 174). A context ref is \<open>None\<close>
  when null, else the state of its context; \<open>mediaStream\<close>, \<open>sourceNode\<close> and
  \<open>scriptProcessorNode\<close> say whether the ref is non-null; \<open>ws\<close> is null or the
  socket's \<open>readyState\<close>. \<open>started\<close> logs the \<open>source.start(startTime)\<close> calls with
  their buffers, \<open>sources\<close> is \<open>sourcesRef\<close> (a source is named by its position in
  \<open>started\<close>), and \<open>wsSent\<close> logs the frames given to \<open>wsRef.current.send\<close>.
  \<open>startRecording\<close> is an \<open>async\<close> function that awaits twice: \<open>resuming\<close> counts
  its calls suspended at line 331 and \<open>requesting\<close> those suspended at line 335.
  \<open>processors\<close> counts the script processor nodes that are connected on the input
  context, the ref or not: each of them fires \<open>onaudioprocess\<close>.
\<close>

record client =
  isRecording :: bool
  status :: string
  error :: string
  inputAudioContext :: "context_state option"
  outputAudioContext :: "context_state option"
  nextStartTime :: real
  started :: "(real \<times> audio_buffer) list"
  sources :: "nat set"
  mediaStream :: bool
  sourceNode :: bool
  scriptProcessorNode :: bool
  ws :: "ready_state option"
  wsSent :: "wave_file list"
  resuming :: nat
  requesting :: nat
  processors :: nat

subsection \<open>Audio contexts and playback\<close>

text \<open>\<open>!ref.current || ref.current.state === 'closed'\<close> (lines 194 and 197).\<close>

definition stale :: "context_state option \<Rightarrow> bool" where
  "stale c = (c = None \<or> c = Some Closed)"

text \<open>
  \<open>initAudio\<close>, lines 193 to 201. \<open>now\<close> is what \<open>currentTime\<close> of an output context
  that already exists reads; a context just created reads 0.
\<close>

definition initAudio :: "real \<Rightarrow> client \<Rightarrow> client" where
  "initAudio now s =
     (let s1 = (if stale (inputAudioContext s) then s\<lparr>inputAudioContext := Some Suspended\<rparr>
                else s);
          s2 = (if stale (outputAudioContext s1) then s1\<lparr>outputAudioContext := Some Suspended\<rparr>
                else s1)
      in s2\<lparr>nextStartTime := (if stale (outputAudioContext s1) then 0 else now)\<rparr>)"

text \<open>
  \<open>playAudioBuffer\<close>, lines 242 to 255; \<open>now\<close> is the reading of
  \<open>outputAudioContextRef.current.currentTime\<close> at line 250. With the ref null,
  line 244 throws a TypeError.
\<close>

definition playAudioBuffer :: "real \<Rightarrow> audio_buffer \<Rightarrow> client \<Rightarrow> client outcome" where
  "playAudioBuffer now audioBuffer s =
     (case outputAudioContext s of
        None \<Rightarrow> Throws ''Cannot read properties of null (reading createBufferSource)''
      | Some ctx \<Rightarrow>
          (let startTime = max (nextStartTime s) now
           in Returns (s\<lparr>started := started s @ [(startTime, audioBuffer)],
                         nextStartTime := startTime + duration audioBuffer,
                         sources := insert (length (started s)) (sources s)\<rparr>)))"

text \<open>The \<open>onended\<close> handler of lines 247 to 249.\<close>

definition onended :: "nat \<Rightarrow> client \<Rightarrow> client" where
  "onended source s = s\<lparr>sources := sources s - {source}\<rparr>"

text \<open>
  A sequence of decoded fragments handed to \<open>playAudioBuffer\<close>, each with the clock
  reading at its call: the state before each call and the state after the last. A call
  that throws ends the list.
\<close>

fun plays :: "client \<Rightarrow> (real \<times> audio_buffer) list \<Rightarrow> client list" where
  "plays s [] = [s]"
| "plays s ((now, audioBuffer) # rest) =
     s # (case playAudioBuffer now audioBuffer s of
            Throws e \<Rightarrow> []
          | Returns s' \<Rightarrow> plays s' rest)"

subsection \<open>Decoding\<close>

text \<open>
  \<open>new Float32Array(clonedBuffer)\<close>: every four bytes, least significant first, are
  one float. (The constructor throws unless the byte length is a multiple of four; see
  \<open>float32_fallback\<close>.)
\<close>

fun float32_of_bytes :: "byte list \<Rightarrow> 32 word list" where
  "float32_of_bytes (b0 # b1 # b2 # b3 # rest) =
     (ucast b0 OR push_bit 8 (ucast b1) OR push_bit 16 (ucast b2) OR push_bit 24 (ucast b3))
       # float32_of_bytes rest"
| "float32_of_bytes rest = []"

text \<open>
  The inner \<open>try\<close> of \<open>decodeAudioData\<close>, lines 269 to 273. It throws when the byte
  length is not a multiple of four (the \<open>Float32Array\<close> constructor, a RangeError),
  when the context ref is null (a TypeError) and when there is no sample frame at all
  (\<open>createBuffer\<close> refuses a length of 0, a NotSupportedError).
\<close>

definition float32_fallback :: "client \<Rightarrow> byte list \<Rightarrow> audio_buffer outcome" where
  "float32_fallback s arrayBuffer =
     (if length arrayBuffer mod 4 \<noteq> 0
      then Throws ''byte length of Float32Array should be a multiple of 4''
      else case outputAudioContext s of
        None \<Rightarrow> Throws ''Cannot read properties of null (reading createBuffer)''
      | Some ctx \<Rightarrow>
          if length arrayBuffer div 4 = 0
          then Throws ''The number of frames provided (0) is less than or equal to the minimum bound (0).''
          else Returns \<lparr>numberOfChannels = 1, sampleRate = 24000,
                         channel0 = float32_of_bytes arrayBuffer\<rparr>)"

text \<open>
  \<open>decodeAudioData\<close>, lines 258 to 280. \<open>ctxDecode\<close> is the platform's
  \<open>AudioContext.decodeAudioData\<close>, which returns a buffer or throws. The error of
  line 277 is built from \<open>err.message\<close> alone; \<open>fallbackErr\<close> only goes to the console
  (line 276).
\<close>

definition decodeAudioData ::
  "(byte list \<Rightarrow> audio_buffer outcome) \<Rightarrow> byte list \<Rightarrow> client \<Rightarrow> audio_buffer outcome" where
  "decodeAudioData ctxDecode arrayBuffer s =
     (case (case outputAudioContext s of
              None \<Rightarrow> Throws ''Cannot read properties of null (reading decodeAudioData)''
            | Some ctx \<Rightarrow> ctxDecode arrayBuffer) of
        Returns audioBuffer \<Rightarrow> Returns audioBuffer
      | Throws err \<Rightarrow>
          (case float32_fallback s arrayBuffer of
             Returns audioBuffer \<Rightarrow> Returns audioBuffer
           | Throws fallbackErr \<Rightarrow> Throws (''Audio decode failed: '' @ err)))"

text \<open>
  The \<open>onmessage\<close> handler of the client's socket, lines 293 to 310, run to its end.
  \<open>msg\<close> is the parsed envelope and \<open>bytes\<close> the outcome of
  \<open>base64ToArrayBuffer(msg.data)\<close> (lines 204 to 239). What \<open>decodeAudioData\<close>
  throws is caught at line 307; \<open>playAudioBuffer\<close> is not awaited, so a throw of it
  is not seen by the handler and changes nothing.
\<close>

definition ws_onmessage ::
  "(byte list \<Rightarrow> audio_buffer outcome) \<Rightarrow> real \<Rightarrow> envelope \<Rightarrow> byte list outcome \<Rightarrow> client \<Rightarrow> client" where
  "ws_onmessage ctxDecode now msg bytes s =
     (case msg of
        Status m \<Rightarrow> s\<lparr>status := m\<rparr>
      | Error m \<Rightarrow> s\<lparr>error := m\<rparr>
      | Audio d \<Rightarrow>
          if d = [] then s
          else case bytes of
            Throws e \<Rightarrow> s\<lparr>error := ''Error handling message: '' @ e\<rparr>
          | Returns arrayBuffer \<Rightarrow>
              (case decodeAudioData ctxDecode arrayBuffer s of
                 Throws e \<Rightarrow> s\<lparr>error := ''Error handling message: '' @ e\<rparr>
               | Returns audioBuffer \<Rightarrow>
                   (case playAudioBuffer now audioBuffer s of
                      Throws e \<Rightarrow> s
                    | Returns s' \<Rightarrow> s')))"

subsection \<open>Capture\<close>

text \<open>
  Line 358: \<open>int16Array[i] = Math.max(-32768, Math.min(32767, Math.floor(pcmData[i] *
  32767)))\<close>. A sample is the real number its float denotes (the product of a 32-bit
  float and 32767 is exact in a double, so nothing is rounded before the floor; NaN and
  the infinities are not samples here). Storing into an \<open>Int16Array\<close> keeps the low 16
  bits, which is \<open>word_of_int\<close>.
\<close>

definition to_int16 :: "real \<Rightarrow> 16 word" where
  "to_int16 x = word_of_int (max (- 32768) (min 32767 \<lfloor>x * 32767\<rfloor>))"

text \<open>Lines 355 to 363: the frame built from one input buffer.\<close>

definition encode :: "real list \<Rightarrow> wave_file" where
  "encode pcmData =
     \<lparr>wavChannels = 1, wavSampleRate = 16000, wavBitDepth = ''16'',
      wavSamples = map to_int16 pcmData\<rparr>"

text \<open>
  The \<open>onaudioprocess\<close> handler, lines 348 to 373. There is no \<open>else\<close> to the test of
  line 367, and the \<open>catch\<close> only writes to the console.
\<close>

definition onaudioprocess :: "real list \<Rightarrow> client \<Rightarrow> client" where
  "onaudioprocess pcmData s =
     (if \<not> isRecording s then s
      else let wav = encode pcmData
           in if ws s = Some OPEN then s\<lparr>wsSent := wsSent s @ [wav]\<rparr> else s)"

text \<open>
  One buffer of captured samples: every script processor that is connected fires its
  \<open>onaudioprocess\<close> handler on it.
\<close>

definition audio_tick :: "real list \<Rightarrow> client \<Rightarrow> client" where
  "audio_tick pcmData s = (onaudioprocess pcmData ^^ processors s) s"

text \<open>\<open>connectWebSocket\<close> (lines 283 to 318) and \<open>closeWebSocket\<close> (lines 320 to 325).\<close>

definition connectWebSocket :: "client \<Rightarrow> client" where
  "connectWebSocket s = s\<lparr>ws := Some CONNECTING\<rparr>"

definition closeWebSocket :: "client \<Rightarrow> client" where
  "closeWebSocket s = (case ws s of None \<Rightarrow> s | Some socket \<Rightarrow> s\<lparr>ws := None\<rparr>)"

text \<open>
  Lines 410 to 417: a context that is there and not closed is closed and its ref set to
  null; otherwise the ref is left as it is.
\<close>

definition close_context :: "context_state option \<Rightarrow> context_state option" where
  "close_context c = (if stale c then c else None)"

text \<open>
  \<open>stopRecording\<close>, lines 391 to 419. Lines 396 to 399 disconnect the processor and the
  source the refs hold, and no other; closing the input context (lines 410 to 413) ends
  the processing of every node on it.
\<close>

definition stopRecording :: "client \<Rightarrow> client" where
  "stopRecording s =
     (let s1 = s\<lparr>status := ''Stopping recording...'', isRecording := False,
                 processors :=
                   (if scriptProcessorNode s \<and> sourceNode s \<and> inputAudioContext s \<noteq> None
                    then processors s - 1 else processors s),
                 scriptProcessorNode := False, sourceNode := False, mediaStream := False\<rparr>;
          s2 = closeWebSocket s1
      in s2\<lparr>processors := (if stale (inputAudioContext s2) then processors s2 else 0),
             inputAudioContext := close_context (inputAudioContext s2),
             outputAudioContext := close_context (outputAudioContext s2),
             status := ''Recording stopped. Click Start to begin again.''\<rparr>)"

text \<open>
  \<open>startRecording\<close>, lines 327 to 389, in its three stretches. The first runs when the
  function is called: the guard of line 328, \<open>initAudio\<close>, and the call of
  \<open>resume\<close> on the input context, on which the function suspends.
\<close>

definition startRecording_call :: "real \<Rightarrow> client \<Rightarrow> client" where
  "startRecording_call now s =
     (if isRecording s then s
      else (initAudio now s)\<lparr>inputAudioContext := Some Running, resuming := resuming s + 1\<rparr>)"

text \<open>
  The second stretch runs when \<open>resume\<close> has resolved: lines 332 to 335, up to the
  call of \<open>getUserMedia\<close>, on which the function suspends again (for as long as the
  permission prompt is open).
\<close>

definition startRecording_resumed :: "client \<Rightarrow> client" where
  "startRecording_resumed s =
     (if resuming s = 0 then s
      else s\<lparr>resuming := resuming s - 1, requesting := requesting s + 1,
             status := ''Requesting microphone access...''\<rparr>)"

text \<open>
  The third stretch runs when \<open>getUserMedia\<close> has settled: lines 336 to 388. Only at
  its end (line 381) is \<open>isRecordingRef.current\<close> set. With the input context ref null
  (a \<open>stopRecording\<close> came in between), line 341 throws into the \<open>catch\<close>. (The
  status text of line 382 is kept without its emoji.)
\<close>

definition startRecording_settled :: "unit outcome \<Rightarrow> client \<Rightarrow> client" where
  "startRecording_settled getUserMedia s =
     (if requesting s = 0 then s
      else let s1 = s\<lparr>requesting := requesting s - 1\<rparr>
           in case getUserMedia of
                Returns stream \<Rightarrow>
                  (let s2 = connectWebSocket
                         (s1\<lparr>mediaStream := True,
                             status := ''Microphone access granted. Starting capture...''\<rparr>)
                   in if inputAudioContext s2 = None
                      then stopRecording
                        (s2\<lparr>error := ''Error: Cannot read properties of null (reading createMediaStreamSource)'',
                            status := ''Error starting recording''\<rparr>)
                      else s2\<lparr>sourceNode := True, processors := processors s2 + 1,
                              scriptProcessorNode := True, isRecording := True,
                              status := ''Recording... Capturing PCM chunks.''\<rparr>)
              | Throws e \<Rightarrow>
                  stopRecording
                    (s1\<lparr>error := ''Error: '' @ e, status := ''Error starting recording''\<rparr>))"

text \<open>
  A call of \<open>startRecording\<close> that nothing interrupts: its three stretches one after the
  other, with \<open>getUserMedia\<close> the outcome of \<open>navigator.mediaDevices.getUserMedia\<close>.
\<close>

definition startRecording :: "real \<Rightarrow> unit outcome \<Rightarrow> client \<Rightarrow> client" where
  "startRecording now getUserMedia s =
     (if isRecording s then s
      else startRecording_settled getUserMedia (startRecording_resumed (startRecording_call now s)))"

section \<open>What the specification speaks of\<close>

subsection \<open>Turns and forwarded audio\<close>

text \<open>
  A turn, in the words of the specification: the fragments up to and including the first
  one that signals completion (all of them when none does).
\<close>

definition turn_of :: "message list \<Rightarrow> message list" where
  "turn_of ms =
     takeWhile (\<lambda>m. \<not> turn_complete m) ms @ take 1 (dropWhile (\<lambda>m. \<not> turn_complete m) ms)"

text \<open>The \<open>Audio\<close> envelopes of the fragments that carry an audio payload, in order.\<close>

definition payloads :: "message list \<Rightarrow> envelope list" where
  "payloads ms = [Audio d. Some d \<leftarrow> map data ms, d \<noteq> []]"

text \<open>The \<open>Audio\<close> envelopes a connection has sent, and the fragments a run delivers.\<close>

definition audio_sent :: "relay \<Rightarrow> envelope list" where
  "audio_sent s = [Audio d. Ws_send (Audio d) \<leftarrow> effects s]"

definition delivered :: "event list \<Rightarrow> message list" where
  "delivered evs = [m. Upstream_message m \<leftarrow> evs]"

subsection \<open>Sequential turn collection\<close>

text \<open>
  Turn collections never overlap along a run: before every event, and at the end, at
  most one \<open>handleTurn\<close> call is under way.
\<close>

fun at_most_one_collection :: "relay \<Rightarrow> event list \<Rightarrow> bool" where
  "at_most_one_collection s [] = (length (pending s) \<le> 1)"
| "at_most_one_collection s (ev # evs) =
     (length (pending s) \<le> 1 \<and> at_most_one_collection (step s ev) evs)"

fun is_client_message :: "event \<Rightarrow> bool" where
  "is_client_message (Client_message wav submit) = True"
| "is_client_message ev = False"

text \<open>The client sends audio only while no collection is under way.\<close>

fun client_waits :: "relay \<Rightarrow> event list \<Rightarrow> bool" where
  "client_waits s [] = True"
| "client_waits s (ev # evs) =
     ((if is_client_message ev then pending s = [] else True) \<and> client_waits (step s ev) evs)"

subsection \<open>One collection served on its own\<close>

text \<open>
  The timer of the first collection firing \<open>n\<close> times, and the upstream delivering
  batch after batch with the timer firing after each batch as often as the batch has
  fragments.
\<close>

definition passes :: "nat \<Rightarrow> event list" where
  "passes n = replicate n (Poll 0)"

definition serve :: "message list list \<Rightarrow> event list" where
  "serve arrivals =
     concat (map (\<lambda>batch. map Upstream_message batch @ passes (length batch)) arrivals)"

subsection \<open>Start times\<close>

text \<open>The time given to \<open>source.start\<close> for the \<open>i\<close>-th fragment of a sequence.\<close>

definition start_time :: "client \<Rightarrow> (real \<times> audio_buffer) list \<Rightarrow> nat \<Rightarrow> real" where
  "start_time s evs i = fst (last (started (plays s evs ! Suc i)))"

subsection \<open>Inputs for the examples\<close>

definition fragment :: "string \<Rightarrow> message" where
  "fragment d = \<lparr>data = Some d, serverContent = None\<rparr>"

definition marker :: message where
  "marker = \<lparr>data = None, serverContent = Some \<lparr>turnComplete = True\<rparr>\<rparr>"

text \<open>The component as mounted (lines 159 to 174), before the effect of line 427.\<close>

definition mounted :: client where
  "mounted =
     \<lparr>isRecording = False, status = [], error = [], inputAudioContext = None,
      outputAudioContext = None, nextStartTime = 0, started = [], sources = {},
      mediaStream = False, sourceNode = False, scriptProcessorNode = False, ws = None,
      wsSent = [], resuming = 0, requesting = 0, processors = 0\<rparr>"

text \<open>
  Start is clicked, \<open>resume\<close> resolves and the permission prompt opens; Start is clicked
  again (at clock reading 2) before the prompt is answered; then both calls of
  \<open>getUserMedia\<close> return a stream.
\<close>

definition started_twice :: client where
  "started_twice =
     startRecording_settled (Returns ())
       (startRecording_settled (Returns ())
          (startRecording_resumed
             (startRecording_call 2
                (startRecording_resumed (startRecording_call 0 mounted)))))"

text \<open>A silent mono buffer of \<open>n\<close> sample frames at 24 kHz.\<close>

definition silence :: "nat \<Rightarrow> audio_buffer" where
  "silence n = \<lparr>numberOfChannels = 1, sampleRate = 24000, channel0 = replicate n 0\<rparr>"

text \<open>A platform decoder on bytes that are no audio container.\<close>

definition no_container :: "byte list \<Rightarrow> audio_buffer outcome" where
  "no_container arrayBuffer = Throws ''Unable to decode audio data''"

section \<open>Properties of the relay\<close>

lemma run_Nil: "run s [] = s"
  by (simp add: run_def)

lemma run_Cons: "run s (ev # evs) = run (step s ev) evs"
  by (simp add: run_def)

lemma poll_phase: "phase (poll i s) = phase s"
  by (simp add: poll_def Let_def split: list.splits)

lemma poll_session: "session (poll i s) = session s"
  by (simp add: poll_def Let_def split: list.splits)

lemma poll_upstream_calls:
  "filter is_upstream_call (effects (poll i s)) = filter is_upstream_call (effects s)"
  by (simp add: poll_def Let_def forward_def split: list.splits option.splits)

lemma poll_pending_length: "length (pending (poll i s)) \<le> length (pending s)"
  by (auto simp add: poll_def Let_def min_def split: list.splits)

subsection \<open>Forwarding within a turn\<close>

lemma payloads_Nil: "payloads [] = []"
  by (simp add: payloads_def)

lemma payloads_Cons: "payloads (m # ms) = forward m @ payloads ms"
  by (simp add: payloads_def forward_def split: option.splits)

lemma payloads_append: "payloads (xs @ ys) = payloads xs @ payloads ys"
  by (induction xs) (simp_all add: payloads_Nil payloads_Cons)

lemma turn_of_Cons:
  "turn_of (m # ms) = (if turn_complete m then [m] else m # turn_of ms)"
  by (simp add: turn_of_def)

text \<open>The loop of \<open>handleTurn\<close>, started with any \<open>turns\<close> and \<open>sent\<close>.\<close>

lemma handleTurn_acc:
  "(case handleTurn queue arrivals turns sent of
      Returned t s q a \<Rightarrow>
        t = turns @ turn_of (queue @ concat arrivals) \<and>
        s = sent @ payloads (turn_of (queue @ concat arrivals)) \<and>
        turn_of (queue @ concat arrivals) @ q @ concat a = queue @ concat arrivals \<and>
        filter turn_complete (queue @ concat arrivals) \<noteq> []
    | Stalled t s \<Rightarrow>
        t = turns @ queue @ concat arrivals \<and>
        s = sent @ payloads (queue @ concat arrivals) \<and>
        filter turn_complete (queue @ concat arrivals) = [])"
proof (induction queue arrivals turns sent rule: handleTurn.induct)
  case (1 queue arrivals turns sent)
  show ?case
  proof (cases "waitMessage queue arrivals")
    case None
    have e: "queue @ concat arrivals = []"
      by (rule waitMessage_None [OF None])
    have "handleTurn queue arrivals turns sent = Stalled turns sent"
      using None by (subst handleTurn.simps) simp
    then show ?thesis
      unfolding e by (simp add: payloads_Nil)
  next
    case (Some r)
    obtain m q a where r: "r = (m, q, a)"
      by (cases r) auto
    from Some r have w: "waitMessage queue arrivals = Some (m, q, a)"
      by simp
    note all = waitMessage_order [OF w]
    show ?thesis
    proof (cases "turn_complete m")
      case True
      with w all show ?thesis
        by (subst handleTurn.simps) (simp add: turn_of_Cons payloads_Cons payloads_Nil)
    next
      case False
      from "1.IH" [OF w refl refl refl refl False]
      have ih: "case handleTurn q a (turns @ [m]) (sent @ forward m) of
          Returned t s q' a' \<Rightarrow>
            t = (turns @ [m]) @ turn_of (q @ concat a) \<and>
            s = (sent @ forward m) @ payloads (turn_of (q @ concat a)) \<and>
            turn_of (q @ concat a) @ q' @ concat a' = q @ concat a \<and>
            filter turn_complete (q @ concat a) \<noteq> []
        | Stalled t s \<Rightarrow>
            t = (turns @ [m]) @ q @ concat a \<and>
            s = (sent @ forward m) @ payloads (q @ concat a) \<and>
            filter turn_complete (q @ concat a) = []" .
      have eq: "handleTurn queue arrivals turns sent =
          handleTurn q a (turns @ [m]) (sent @ forward m)"
        using w False by (subst handleTurn.simps) simp
      from ih False show ?thesis
        unfolding eq all
        by (simp add: turn_of_Cons payloads_Cons split: turn_result.splits)
    qed
  qed
qed

subsection \<open>A collection alone on the queue\<close>

lemma run_append: "run s (xs @ ys) = run (run s xs) ys"
  by (simp add: run_def)

lemma passes_Suc: "passes (Suc n) = Poll 0 # passes n"
  by (simp add: passes_def)

lemma run_passes_idle: "pending s = [] \<Longrightarrow> run s (passes n) = s"
  by (induction n) (simp_all add: passes_def run_Nil run_Cons)

lemma run_passes_empty: "responseQueue s = [] \<Longrightarrow> run s (passes n) = s"
  by (induction n) (simp_all add: passes_def run_Nil run_Cons poll_def)

lemma run_pushes:
  "run s (map Upstream_message batch) = s\<lparr>responseQueue := responseQueue s @ batch\<rparr>"
  by (induction batch arbitrary: s) (simp_all add: run_Nil run_Cons)

lemma run_serve_idle:
  "pending s = [] \<Longrightarrow>
     run s (serve arrivals) = s\<lparr>responseQueue := responseQueue s @ concat arrivals\<rparr>"
proof (induction arrivals arbitrary: s)
  case Nil
  then show ?case by (simp add: serve_def run_Nil)
next
  case (Cons batch arrivals)
  let ?t = "s\<lparr>responseQueue := responseQueue s @ batch\<rparr>"
  have t: "pending ?t = []" using Cons.prems by simp
  have "run s (serve (batch # arrivals)) = run (run (run s (map Upstream_message batch))
      (passes (length batch))) (serve arrivals)"
    by (simp add: serve_def run_append)
  also have "\<dots> = run ?t (serve arrivals)"
    by (simp add: run_pushes run_passes_idle [OF t])
  also have "\<dots> = ?t\<lparr>responseQueue := responseQueue ?t @ concat arrivals\<rparr>"
    by (rule Cons.IH [OF t])
  finally show ?case by simp
qed

text \<open>Draining a queue with one collection under way.\<close>

lemma run_passes_alone:
  "pending s = [turns] \<Longrightarrow> length (responseQueue s) \<le> n \<Longrightarrow>
     run s (passes n) =
       (if filter turn_complete (responseQueue s) \<noteq> []
        then s\<lparr>responseQueue := drop (length (turn_of (responseQueue s))) (responseQueue s),
               effects := effects s @ map Ws_send (payloads (turn_of (responseQueue s))),
               pending := []\<rparr>
        else s\<lparr>responseQueue := [],
               effects := effects s @ map Ws_send (payloads (responseQueue s)),
               pending := [turns @ responseQueue s]\<rparr>)"
proof (induction n arbitrary: s turns)
  case 0
  then show ?case by (simp add: passes_def run_Nil payloads_Nil)
next
  case (Suc n)
  show ?case
  proof (cases "responseQueue s")
    case Nil
    with run_passes_empty [OF Nil, of "Suc n"] Suc.prems show ?thesis
      by (simp add: payloads_Nil)
  next
    case (Cons m q)
    show ?thesis
    proof (cases "turn_complete m")
      case True
      let ?t = "s\<lparr>responseQueue := q, effects := effects s @ map Ws_send (forward m),
                  pending := []\<rparr>"
      have "step s (Poll 0) = ?t"
        using Suc.prems Cons True by (simp add: poll_def)
      moreover have "run ?t (passes n) = ?t"
        by (rule run_passes_idle) simp
      ultimately show ?thesis
        using Cons True
        by (simp add: passes_Suc run_Cons turn_of_Cons payloads_Cons payloads_Nil)
    next
      case False
      let ?t = "s\<lparr>responseQueue := q, effects := effects s @ map Ws_send (forward m),
                  pending := [turns @ [m]]\<rparr>"
      have st: "step s (Poll 0) = ?t"
        using Suc.prems Cons False by (simp add: poll_def)
      have "pending ?t = [turns @ [m]]" "length (responseQueue ?t) \<le> n"
        using Suc.prems Cons by simp_all
      from Suc.IH [OF this] st Cons False show ?thesis
        by (simp add: passes_Suc run_Cons turn_of_Cons payloads_Cons)
    qed
  qed
qed

lemma length_turn_of_le: "length (turn_of q) \<le> length q"
  by (induction q) (simp_all add: turn_of_def)

lemma turn_of_append_marker:
  "filter turn_complete q \<noteq> [] \<Longrightarrow> turn_of (q @ r) = turn_of q"
  by (induction q) (auto simp add: turn_of_Cons)

lemma turn_of_append_no_marker:
  "filter turn_complete q = [] \<Longrightarrow> turn_of (q @ r) = q @ turn_of r"
  by (induction q) (auto simp add: turn_of_Cons split: if_splits)

lemma run_alone:
  "pending s = [turns] \<Longrightarrow> length (responseQueue s) \<le> n \<Longrightarrow>
     run s (passes n @ serve arrivals) =
       (if filter turn_complete (responseQueue s @ concat arrivals) \<noteq> []
        then s\<lparr>responseQueue :=
                 drop (length (turn_of (responseQueue s @ concat arrivals)))
                   (responseQueue s @ concat arrivals),
               effects := effects s @
                 map Ws_send (payloads (turn_of (responseQueue s @ concat arrivals))),
               pending := []\<rparr>
        else s\<lparr>responseQueue := [],
               effects := effects s @ map Ws_send (payloads (responseQueue s @ concat arrivals)),
               pending := [turns @ responseQueue s @ concat arrivals]\<rparr>)"
proof (induction arrivals arbitrary: s turns n)
  case Nil
  from run_passes_alone [OF Nil] show ?case
    by (simp add: serve_def)
next
  case (Cons batch arrivals)
  let ?q = "responseQueue s"
  let ?rest = "concat (batch # arrivals)"
  have split: "run s (passes n @ serve (batch # arrivals)) =
      run (run s (passes n)) (serve (batch # arrivals))"
    by (rule run_append)
  show ?case
  proof (cases "filter turn_complete ?q \<noteq> []")
    case True
    let ?t = "s\<lparr>responseQueue := drop (length (turn_of ?q)) ?q,
                effects := effects s @ map Ws_send (payloads (turn_of ?q)),
                pending := []\<rparr>"
    have 1: "run s (passes n) = ?t"
      using run_passes_alone [OF Cons.prems] True by simp
    have 2: "run ?t (serve (batch # arrivals)) =
        ?t\<lparr>responseQueue := responseQueue ?t @ ?rest\<rparr>"
      by (rule run_serve_idle) simp
    from True have m: "filter turn_complete (?q @ ?rest) \<noteq> []"
      by simp
    from 1 2 True m length_turn_of_le [of ?q] show ?thesis
      unfolding split by (simp add: turn_of_append_marker)
  next
    case False
    then have nm: "filter turn_complete ?q = []" by simp
    let ?t = "s\<lparr>responseQueue := [],
                effects := effects s @ map Ws_send (payloads ?q),
                pending := [turns @ ?q]\<rparr>"
    let ?u = "?t\<lparr>responseQueue := batch\<rparr>"
    have 1: "run s (passes n) = ?t"
      using run_passes_alone [OF Cons.prems] nm by simp
    have 2: "run ?t (serve (batch # arrivals)) = run ?u (passes (length batch) @ serve arrivals)"
      by (simp add: serve_def run_append run_pushes)
    have "pending ?u = [turns @ ?q]" "length (responseQueue ?u) \<le> length batch"
      by simp_all
    note ih = Cons.IH [OF this]
    from 1 2 ih nm show ?thesis
      unfolding split
      by (simp add: turn_of_append_no_marker payloads_append)
  qed
qed

lemma submit_alone:
  assumes "phase s = Established" and "pending s = []"
  shows "run s (Client_message (Returns b) (Returns ()) # passes (length (responseQueue s)) @ serve arrivals) =
       (if filter turn_complete (responseQueue s @ concat arrivals) \<noteq> []
        then s\<lparr>responseQueue :=
                 drop (length (turn_of (responseQueue s @ concat arrivals)))
                   (responseQueue s @ concat arrivals),
               effects := effects s @ Send_realtime_input b #
                 map Ws_send (payloads (turn_of (responseQueue s @ concat arrivals)))\<rparr>
        else s\<lparr>responseQueue := [],
               effects := effects s @ Send_realtime_input b #
                 map Ws_send (payloads (responseQueue s @ concat arrivals)),
               pending := [responseQueue s @ concat arrivals]\<rparr>)"
proof -
  let ?s0 = "s\<lparr>effects := effects s @ [Send_realtime_input b], pending := [[]]\<rparr>"
  have "step s (Client_message (Returns b) (Returns ())) = step ?s0 (Poll 0)"
    using assms by (simp add: on_message_def)
  then have "run s (Client_message (Returns b) (Returns ()) # passes (length (responseQueue s)) @ serve arrivals) =
      run ?s0 (passes (Suc (length (responseQueue s))) @ serve arrivals)"
    by (simp add: run_Cons passes_Suc)
  also have "\<dots> =
       (if filter turn_complete (responseQueue ?s0 @ concat arrivals) \<noteq> []
        then ?s0\<lparr>responseQueue :=
                 drop (length (turn_of (responseQueue ?s0 @ concat arrivals)))
                   (responseQueue ?s0 @ concat arrivals),
               effects := effects ?s0 @
                 map Ws_send (payloads (turn_of (responseQueue ?s0 @ concat arrivals))),
               pending := []\<rparr>
        else ?s0\<lparr>responseQueue := [],
               effects := effects ?s0 @ map Ws_send (payloads (responseQueue ?s0 @ concat arrivals)),
               pending := [[] @ responseQueue ?s0 @ concat arrivals]\<rparr>)"
    by (rule run_alone) simp_all
  finally show ?thesis
    using assms by simp
qed

subsection \<open>Any number of collections\<close>

lemma delivered_Cons: "delivered (ev # evs) = delivered [ev] @ delivered evs"
  by (simp add: delivered_def)

text \<open>Every run: what has been taken from the queue is a prefix of what was delivered.\<close>

lemma step_prefix:
  "\<exists>k\<le>length (responseQueue s @ delivered [ev]).
     responseQueue (step s ev) = drop k (responseQueue s @ delivered [ev]) \<and>
     audio_sent (step s ev) = audio_sent s @ payloads (take k (responseQueue s @ delivered [ev]))"
proof -
  have poll: "\<exists>k\<le>length (responseQueue t).
     responseQueue (poll i t) = drop k (responseQueue t) \<and>
     audio_sent (poll i t) = audio_sent t @ payloads (take k (responseQueue t))" for i t
  proof (cases "responseQueue t")
    case Nil
    then show ?thesis by (simp add: poll_def payloads_Nil)
  next
    case (Cons m q)
    then have "responseQueue (poll i t) = drop 1 (responseQueue t) \<and>
      audio_sent (poll i t) = audio_sent t @ payloads (take 1 (responseQueue t))"
      by (simp add: poll_def Let_def audio_sent_def payloads_Cons payloads_Nil forward_def
          split: option.splits)
    moreover have "1 \<le> length (responseQueue t)" using Cons by simp
    ultimately show ?thesis by blast
  qed
  have keep: "responseQueue t = responseQueue s \<Longrightarrow> audio_sent t = audio_sent s \<Longrightarrow>
     \<exists>k\<le>length (responseQueue s).
       responseQueue t = drop k (responseQueue s) \<and>
       audio_sent t = audio_sent s @ payloads (take k (responseQueue s))" for t
    by (rule exI [of _ 0]) (simp add: payloads_Nil)
  show ?thesis
  proof (cases ev)
    case (Poll i)
    with poll [of s i] keep [of s] show ?thesis
      by (simp add: delivered_def)
  next
    case (Upstream_message m)
    have "responseQueue (step s ev) = drop 0 (responseQueue s @ [m]) \<and>
      audio_sent (step s ev) = audio_sent s @ payloads (take 0 (responseQueue s @ [m]))"
      using Upstream_message by (simp add: audio_sent_def payloads_Nil)
    with Upstream_message show ?thesis
      by (auto simp add: delivered_def intro!: exI [of _ 0])
  next
    case (Client_message wav submit)
    show ?thesis
    proof (cases "phase s = Established")
      case False
      with Client_message keep [of s] show ?thesis by (simp add: delivered_def)
    next
      case True
      show ?thesis
      proof (cases wav)
        case (Throws e)
        with Client_message True keep [of "ws_send (Error e) s"] show ?thesis
          by (simp add: delivered_def on_message_def ws_send_def audio_sent_def)
      next
        case r: (Returns a)
        show ?thesis
        proof (cases submit)
          case (Throws e)
          with Client_message True r keep [of "ws_send (Error e) s"] show ?thesis
            by (simp add: delivered_def on_message_def ws_send_def audio_sent_def)
        next
          case (Returns u)
          let ?t = "s\<lparr>effects := effects s @ [Send_realtime_input a],
                      pending := pending s @ [[]]\<rparr>"
          have "responseQueue ?t = responseQueue s" "audio_sent ?t = audio_sent s"
            by (simp_all add: audio_sent_def)
          with poll [of ?t "length (pending s)"] Client_message True r Returns show ?thesis
            by (simp add: delivered_def on_message_def)
        qed
      qed
    qed
  qed (use keep [of "step s ev"] in
      \<open>simp_all add: delivered_def ws_send_def on_close_def audio_sent_def\<close>)
qed

lemma prefix_compose:
  assumes "k1 \<le> length D1" and "k2 \<le> length (drop k1 D1 @ E)"
  shows "k1 + k2 \<le> length (D1 @ E) \<and>
         drop k2 (drop k1 D1 @ E) = drop (k1 + k2) (D1 @ E) \<and>
         take k1 D1 @ take k2 (drop k1 D1 @ E) = take (k1 + k2) (D1 @ E)"
proof -
  have d: "drop k1 D1 @ E = drop k1 (D1 @ E)" and t: "take k1 D1 = take k1 (D1 @ E)"
    using assms(1) by simp_all
  have "k1 + k2 \<le> length (D1 @ E)"
    using assms by simp
  moreover have "drop k2 (drop k1 (D1 @ E)) = drop (k1 + k2) (D1 @ E)"
    by (subst drop_drop) (simp only: add.commute)
  moreover have "take k1 (D1 @ E) @ take k2 (drop k1 (D1 @ E)) = take (k1 + k2) (D1 @ E)"
    by (simp only: take_add)
  ultimately show ?thesis
    unfolding d t by blast
qed

lemma run_prefix:
  "\<exists>k\<le>length (responseQueue s @ delivered evs).
     responseQueue (run s evs) = drop k (responseQueue s @ delivered evs) \<and>
     audio_sent (run s evs) = audio_sent s @ payloads (take k (responseQueue s @ delivered evs))"
proof (induction evs arbitrary: s)
  case Nil
  show ?case
    by (rule exI [of _ 0]) (simp add: run_Nil delivered_def payloads_Nil)
next
  case (Cons ev evs)
  define D1 where "D1 = responseQueue s @ delivered [ev]"
  define E where "E = delivered evs"
  have D: "responseQueue s @ delivered (ev # evs) = D1 @ E"
    by (simp add: D1_def E_def delivered_Cons [of ev evs])
  from step_prefix [of s ev] obtain k1 where k1: "k1 \<le> length D1"
    "responseQueue (step s ev) = drop k1 D1"
    "audio_sent (step s ev) = audio_sent s @ payloads (take k1 D1)"
    unfolding D1_def by blast
  from Cons.IH [of "step s ev"] obtain k2 where
    k2: "k2 \<le> length (drop k1 D1 @ E)"
    "responseQueue (run (step s ev) evs) = drop k2 (drop k1 D1 @ E)"
    "audio_sent (run (step s ev) evs) =
       audio_sent (step s ev) @ payloads (take k2 (drop k1 D1 @ E))"
    unfolding k1(2) E_def by blast
  note c = prefix_compose [OF k1(1) k2(1)]
  have "audio_sent (run (step s ev) evs) =
      audio_sent s @ payloads (take k1 D1 @ take k2 (drop k1 D1 @ E))"
    unfolding k2(3) k1(3) by (simp add: payloads_append)
  then have "audio_sent (run s (ev # evs)) = audio_sent s @ payloads (take (k1 + k2) (D1 @ E))"
    using c by (simp add: run_Cons)
  moreover have "responseQueue (run s (ev # evs)) = drop (k1 + k2) (D1 @ E)"
    using k2(2) c by (simp add: run_Cons)
  moreover have "k1 + k2 \<le> length (D1 @ E)"
    using c by blast
  ultimately show ?case
    unfolding D by blast
qed

lemma run_prefix_explicit:
  "responseQueue (run s evs) =
     drop (length (responseQueue s @ delivered evs) - length (responseQueue (run s evs)))
       (responseQueue s @ delivered evs) \<and>
   audio_sent (run s evs) =
     audio_sent s @
       payloads (take (length (responseQueue s @ delivered evs) - length (responseQueue (run s evs)))
         (responseQueue s @ delivered evs))"
proof -
  define D where "D = responseQueue s @ delivered evs"
  from run_prefix [of s evs] obtain k where k: "k \<le> length D"
    "responseQueue (run s evs) = drop k D"
    "audio_sent (run s evs) = audio_sent s @ payloads (take k D)"
    unfolding D_def by blast
  from k(1) have "length D - length (drop k D) = k"
    by simp
  then have "length D - length (responseQueue (run s evs)) = k"
    unfolding k(2) .
  with k(2,3) show ?thesis
    unfolding D_def [symmetric] by simp
qed

lemma pass_exact:
  assumes "i < length (pending s)" and "responseQueue s = m # q"
  shows "step s (Poll i) =
     s\<lparr>responseQueue := q,
       effects := effects s @ map Ws_send (forward m),
       pending := (if turn_complete m then take i (pending s) @ drop (Suc i) (pending s)
                   else (pending s)[i := pending s ! i @ [m]])\<rparr>"
  using assms by (simp add: poll_def)

lemma handleTurn_alone:
  assumes "phase s = Established" and "pending s = []"
  shows "case handleTurn (responseQueue s) arrivals [] [] of
        Returned turns sent queue' arrivals' \<Rightarrow>
          run s (Client_message (Returns b) (Returns ()) #
                 passes (length (responseQueue s)) @ serve arrivals) =
            s\<lparr>responseQueue := queue' @ concat arrivals',
              effects := effects s @ Send_realtime_input b # map Ws_send sent\<rparr>
      | Stalled turns sent \<Rightarrow>
          run s (Client_message (Returns b) (Returns ()) #
                 passes (length (responseQueue s)) @ serve arrivals) =
            s\<lparr>responseQueue := [],
              effects := effects s @ Send_realtime_input b # map Ws_send sent,
              pending := [turns]\<rparr>"
proof (cases "handleTurn (responseQueue s) arrivals [] []")
  case (Returned t snt q a)
  let ?all = "responseQueue s @ concat arrivals"
  from handleTurn_acc [where turns = "[]" and sent = "[]" and queue = "responseQueue s"
      and arrivals = arrivals] Returned
  have r: "t = turn_of ?all" "snt = payloads (turn_of ?all)" "turn_of ?all @ q @ concat a = ?all"
    "filter turn_complete ?all \<noteq> []"
    by simp_all
  have "drop (length (turn_of ?all)) (turn_of ?all @ q @ concat a) = q @ concat a"
    by simp
  then have d: "drop (length (turn_of ?all)) ?all = q @ concat a"
    unfolding r(3) .
  from submit_alone [OF assms, of b arrivals] r(4)
  have "run s (Client_message (Returns b) (Returns ()) #
              passes (length (responseQueue s)) @ serve arrivals) =
      s\<lparr>responseQueue := drop (length (turn_of ?all)) ?all,
        effects := effects s @ Send_realtime_input b # map Ws_send (payloads (turn_of ?all))\<rparr>"
    by simp
  with d r(2) Returned show ?thesis by simp
next
  case (Stalled t snt)
  let ?all = "responseQueue s @ concat arrivals"
  from handleTurn_acc [where turns = "[]" and sent = "[]" and queue = "responseQueue s"
      and arrivals = arrivals] Stalled
  have r: "t = ?all" "snt = payloads ?all" "filter turn_complete ?all = []"
    by simp_all
  from submit_alone [OF assms, of b arrivals] r(3)
  have "run s (Client_message (Returns b) (Returns ()) #
              passes (length (responseQueue s)) @ serve arrivals) =
      s\<lparr>responseQueue := [],
        effects := effects s @ Send_realtime_input b # map Ws_send (payloads ?all),
        pending := [?all]\<rparr>"
    by simp
  with r Stalled show ?thesis by simp
qed


text \<open>
  C2. A turn collection that starts on the queue \<open>queue\<close>, with the batches
  \<open>arrivals\<close> still to be pushed by \<open>onmessage\<close>, and that is alone in taking from the
  queue, meets the fragments in the order of their delivery, \<open>queue @ concat arrivals\<close>.
  If one of them signals completion the collection returns: it has collected the turn
  (the fragments up to and including the first marker), it has sent exactly the
  \<open>Audio\<close> envelopes of the turn's fragments that carry a payload, in that order, and
  every fragment after the marker is still in the queue or yet to come, none of them
  forwarded. If no fragment signals completion the collection never returns, having
  forwarded the audio of every fragment. The connection does just that: a submission
  on an established connection with no collection under way, served by its timer while
  the upstream delivers those batches, sends what \<open>handleTurn\<close> sends and leaves
  what \<open>handleTurn\<close> leaves. When several collections share the queue, every pass
  of any of them takes the fragment at the head of the queue and forwards its audio in
  the same pass, before it looks at the marker, and the collection that meets a marker
  ends there. So in every run of the connection, whatever the collections and the order
  in which they are served, the fragments taken from the queue so far are the first
  \<open>k\<close> delivered, and the \<open>Audio\<close> envelopes sent are exactly the payloads of those
  \<open>k\<close>, in the order of delivery: when a marker has been taken, every fragment
  delivered before it has been forwarded, and none of them is forwarded again.
\<close>

theorem turn_forwarded_in_order_until_marker:
  "(case handleTurn queue arrivals [] [] of
      Returned turns sent queue' arrivals' \<Rightarrow>
        turns = turn_of (queue @ concat arrivals) \<and>
        sent = payloads (turn_of (queue @ concat arrivals)) \<and>
        turn_of (queue @ concat arrivals) @ queue' @ concat arrivals' = queue @ concat arrivals \<and>
        filter turn_complete (queue @ concat arrivals) \<noteq> []
    | Stalled turns sent \<Rightarrow>
        turns = queue @ concat arrivals \<and>
        sent = payloads (queue @ concat arrivals) \<and>
        filter turn_complete (queue @ concat arrivals) = []) \<and>
   (phase s = Established \<and> pending s = [] \<longrightarrow>
      (case handleTurn (responseQueue s) arrivals [] [] of
         Returned turns sent queue' arrivals' \<Rightarrow>
           run s (Client_message (Returns b) (Returns ()) #
                  passes (length (responseQueue s)) @ serve arrivals) =
             s\<lparr>responseQueue := queue' @ concat arrivals',
               effects := effects s @ Send_realtime_input b # map Ws_send sent\<rparr>
       | Stalled turns sent \<Rightarrow>
           run s (Client_message (Returns b) (Returns ()) #
                  passes (length (responseQueue s)) @ serve arrivals) =
             s\<lparr>responseQueue := [],
               effects := effects s @ Send_realtime_input b # map Ws_send sent,
               pending := [turns]\<rparr>)) \<and>
   (i < length (pending s) \<and> responseQueue s = m # rest \<longrightarrow>
      step s (Poll i) =
        s\<lparr>responseQueue := rest,
          effects := effects s @ map Ws_send (forward m),
          pending := (if turn_complete m then take i (pending s) @ drop (Suc i) (pending s)
                      else (pending s)[i := pending s ! i @ [m]])\<rparr>) \<and>
   responseQueue (run s evs) =
     drop (length (responseQueue s @ delivered evs) - length (responseQueue (run s evs)))
       (responseQueue s @ delivered evs) \<and>
   audio_sent (run s evs) =
     audio_sent s @
       payloads (take (length (responseQueue s @ delivered evs) - length (responseQueue (run s evs)))
         (responseQueue s @ delivered evs))"
proof (intro conjI impI)
  show "case handleTurn queue arrivals [] [] of
      Returned turns sent queue' arrivals' \<Rightarrow>
        turns = turn_of (queue @ concat arrivals) \<and>
        sent = payloads (turn_of (queue @ concat arrivals)) \<and>
        turn_of (queue @ concat arrivals) @ queue' @ concat arrivals' = queue @ concat arrivals \<and>
        filter turn_complete (queue @ concat arrivals) \<noteq> []
    | Stalled turns sent \<Rightarrow>
        turns = queue @ concat arrivals \<and>
        sent = payloads (queue @ concat arrivals) \<and>
        filter turn_complete (queue @ concat arrivals) = []"
    using handleTurn_acc [where turns = "[]" and sent = "[]" and queue = queue
        and arrivals = arrivals]
    by (cases "handleTurn queue arrivals [] []") simp_all
next
  assume "phase s = Established \<and> pending s = []"
  then show "case handleTurn (responseQueue s) arrivals [] [] of
         Returned turns sent queue' arrivals' \<Rightarrow>
           run s (Client_message (Returns b) (Returns ()) #
                  passes (length (responseQueue s)) @ serve arrivals) =
             s\<lparr>responseQueue := queue' @ concat arrivals',
               effects := effects s @ Send_realtime_input b # map Ws_send sent\<rparr>
       | Stalled turns sent \<Rightarrow>
           run s (Client_message (Returns b) (Returns ()) #
                  passes (length (responseQueue s)) @ serve arrivals) =
             s\<lparr>responseQueue := [],
               effects := effects s @ Send_realtime_input b # map Ws_send sent,
               pending := [turns]\<rparr>"
    using handleTurn_alone [where s = s and arrivals = arrivals and b = b] by blast
next
  assume "i < length (pending s) \<and> responseQueue s = m # rest"
  then show "step s (Poll i) =
        s\<lparr>responseQueue := rest,
          effects := effects s @ map Ws_send (forward m),
          pending := (if turn_complete m then take i (pending s) @ drop (Suc i) (pending s)
                      else (pending s)[i := pending s ! i @ [m]])\<rparr>"
    using pass_exact [of i s m rest] by blast
next
  show "responseQueue (run s evs) =
     drop (length (responseQueue s @ delivered evs) - length (responseQueue (run s evs)))
       (responseQueue s @ delivered evs)"
    using run_prefix_explicit [of s evs] by blast
next
  show "audio_sent (run s evs) =
     audio_sent s @
       payloads (take (length (responseQueue s @ delivered evs) - length (responseQueue (run s evs)))
         (responseQueue s @ delivered evs))"
    using run_prefix_explicit [of s evs] by blast
qed


lemma established: "run connection [Connect_returns] =
    \<lparr>phase = Established, session = True, closed = False, responseQueue = [],
     pending = [], effects = [Live_connect]\<rparr>"
  by (simp add: run_def connection_def)

theorem turn_forwarded_in_order_until_marker_witness:
  "phase (run connection [Connect_returns]) = Established \<and>
   pending (run connection [Connect_returns]) = [] \<and>
   handleTurn [] [[fragment ''AAAA''], [], [marker, fragment ''BBBB'']] [] [] =
     Returned [fragment ''AAAA'', marker] [Audio ''AAAA''] [fragment ''BBBB''] [] \<and>
   run (run connection [Connect_returns])
     (Client_message (Returns ''UklGRg=='') (Returns ()) #
      passes 0 @ serve [[fragment ''AAAA''], [], [marker, fragment ''BBBB'']]) =
     (run connection [Connect_returns])
       \<lparr>responseQueue := [fragment ''BBBB''],
        effects := [Live_connect, Send_realtime_input ''UklGRg=='', Ws_send (Audio ''AAAA'')]\<rparr> \<and>
   step \<lparr>phase = Established, session = True, closed = False,
         responseQueue = [fragment ''AAAA'', marker], pending = [[], []],
         effects = [Live_connect]\<rparr> (Poll 1) =
     \<lparr>phase = Established, session = True, closed = False,
      responseQueue = [marker], pending = [[], [fragment ''AAAA'']],
      effects = [Live_connect, Ws_send (Audio ''AAAA'')]\<rparr>"
proof -
  let ?s = "run connection [Connect_returns]"
  let ?a = "[[fragment ''AAAA''], [], [marker, fragment ''BBBB'']]"
  let ?t = "\<lparr>phase = Established, session = True, closed = False,
         responseQueue = [fragment ''AAAA'', marker], pending = [[], []],
         effects = [Live_connect]\<rparr>"
  have p: "phase ?s = Established" "pending ?s = []" "responseQueue ?s = []"
    "effects ?s = [Live_connect]"
    by (simp_all add: established)
  have h: "handleTurn [] ?a [] [] =
      Returned [fragment ''AAAA'', marker] [Audio ''AAAA''] [fragment ''BBBB''] []"
    by (simp add: handleTurn.simps fragment_def marker_def turn_complete_def forward_def)
  note inst = turn_forwarded_in_order_until_marker [where queue = "[]" and arrivals = ?a
      and s = ?s and b = "''UklGRg==''" and evs = "[]", THEN conjunct2, THEN conjunct1,
      THEN mp, OF conjI, OF p(1) p(2)]
  from inst have r: "run ?s (Client_message (Returns ''UklGRg=='') (Returns ()) #
      passes 0 @ serve ?a) =
      ?s\<lparr>responseQueue := [fragment ''BBBB''],
         effects := [Live_connect, Send_realtime_input ''UklGRg=='', Ws_send (Audio ''AAAA'')]\<rparr>"
    unfolding p(3) h by (simp add: p(4))
  have t: "step ?t (Poll 1) =
     \<lparr>phase = Established, session = True, closed = False,
      responseQueue = [marker], pending = [[], [fragment ''AAAA'']],
      effects = [Live_connect, Ws_send (Audio ''AAAA'')]\<rparr>"
    by (simp add: poll_def fragment_def forward_def turn_complete_def)
  from p(1,2) h r t show ?thesis
    by (intro conjI)
qed


subsection \<open>Sequential turn collection\<close>

lemma on_message_pending_length:
  "length (pending (on_message s wav submit)) \<le> Suc (length (pending s))"
proof (cases wav)
  case (Throws e)
  then show ?thesis by (simp add: on_message_def ws_send_def)
next
  case (Returns b)
  show ?thesis
  proof (cases submit)
    case (Throws e)
    with Returns show ?thesis by (simp add: on_message_def ws_send_def)
  next
    case r: (Returns u)
    have "length (pending (poll (length (pending s))
             (s\<lparr>effects := effects s @ [Send_realtime_input b], pending := pending s @ [[]]\<rparr>)))
          \<le> length (pending (s\<lparr>effects := effects s @ [Send_realtime_input b],
                               pending := pending s @ [[]]\<rparr>))"
      by (rule poll_pending_length)
    with Returns r show ?thesis by (simp add: on_message_def)
  qed
qed

lemma step_pending_length:
  "\<not> is_client_message ev \<Longrightarrow> length (pending (step s ev)) \<le> length (pending s)"
  by (cases ev) (simp_all add: ws_send_def on_close_def poll_pending_length)

lemma step_client_message_idle:
  "pending s = [] \<Longrightarrow> length (pending (step s (Client_message wav submit))) \<le> 1"
  using on_message_pending_length [of s wav submit] by simp

lemma client_waits_sequential:
  "length (pending s) \<le> 1 \<Longrightarrow> client_waits s evs \<Longrightarrow> at_most_one_collection s evs"
proof (induction evs arbitrary: s)
  case Nil
  then show ?case by simp
next
  case (Cons ev evs)
  have "length (pending (step s ev)) \<le> 1"
  proof (cases "is_client_message ev")
    case True
    then obtain wav submit where "ev = Client_message wav submit"
      by (cases ev) simp_all
    with Cons.prems step_client_message_idle [of s wav submit] show ?thesis by simp
  next
    case False
    from step_pending_length [OF False, of s] Cons.prems(1) show ?thesis by simp
  qed
  with Cons show ?case by simp
qed

text \<open>
  C4, as stated, fails. The handler of line 98 is an \<open>async\<close> function that the
  emitter does not await, and nothing makes a submission wait for the collection before
  it. Two audio messages that reach an idle connection one after the other are both
  submitted upstream at once, before any fragment of the first turn exists, and two
  collections are then under way; the fragments that follow go to whichever collection
  polls first, here the first fragment to the second collection and the second to the
  first.
\<close>

theorem turn_collections_interleave_counterexample:
  "\<not> at_most_one_collection connection
        [Connect_returns,
         Client_message (Returns ''QQ=='') (Returns ()),
         Client_message (Returns ''Qg=='') (Returns ())] \<and>
   effects (run connection
        [Connect_returns,
         Client_message (Returns ''QQ=='') (Returns ()),
         Client_message (Returns ''Qg=='') (Returns ())]) =
     [Live_connect, Send_realtime_input ''QQ=='', Send_realtime_input ''Qg==''] \<and>
   pending (run connection
        [Connect_returns,
         Client_message (Returns ''QQ=='') (Returns ()),
         Client_message (Returns ''Qg=='') (Returns ()),
         Upstream_message (fragment ''AAAA''), Poll 1,
         Upstream_message (fragment ''BBBB''), Poll 0]) =
     [[fragment ''BBBB''], [fragment ''AAAA'']]"
  by (simp add: run_def connection_def on_message_def poll_def Let_def fragment_def
      turn_complete_def forward_def)

text \<open>
  C4, amended. The relay does not serialise turn collections. An inbound audio message
  that converts and submits is sent upstream as soon as it arrives, whether or not
  earlier collections are under way, and starts a collection of its own, whose first
  pass runs at once on the shared queue: with the queue empty the new collection waits
  beside the others; otherwise it takes the fragment at the head of the queue and
  forwards its audio, and either keeps the fragment and waits beside the others or, if
  the fragment is a completion marker (one an earlier collection may be waiting for),
  ends at once. The \<open>turns\<close> of the earlier collections are left as they are. Turn
  collection is sequential exactly as far as the client makes it so: along a run in
  which every audio message arrives while no collection is under way, at most one
  collection is under way at any time.
\<close>

theorem collections_sequential_only_if_client_waits:
  "(phase s = Established \<longrightarrow>
      step s (Client_message (Returns b) (Returns ())) =
        (case responseQueue s of
           [] \<Rightarrow> s\<lparr>effects := effects s @ [Send_realtime_input b],
                    pending := pending s @ [[]]\<rparr>
         | m # rest \<Rightarrow>
             s\<lparr>responseQueue := rest,
               effects := effects s @ Send_realtime_input b # map Ws_send (forward m),
               pending := pending s @ (if turn_complete m then [] else [[m]])\<rparr>)) \<and>
   (length (pending s) \<le> 1 \<and> client_waits s evs \<longrightarrow> at_most_one_collection s evs)"
proof (intro conjI impI)
  assume "phase s = Established"
  then show "step s (Client_message (Returns b) (Returns ())) =
        (case responseQueue s of
           [] \<Rightarrow> s\<lparr>effects := effects s @ [Send_realtime_input b],
                    pending := pending s @ [[]]\<rparr>
         | m # rest \<Rightarrow>
             s\<lparr>responseQueue := rest,
               effects := effects s @ Send_realtime_input b # map Ws_send (forward m),
               pending := pending s @ (if turn_complete m then [] else [[m]])\<rparr>)"
    by (simp add: on_message_def poll_def split: list.splits)
next
  assume "length (pending s) \<le> 1 \<and> client_waits s evs"
  then show "at_most_one_collection s evs"
    using client_waits_sequential [of s evs] by blast
qed

theorem collections_sequential_only_if_client_waits_witness:
  "phase (run connection [Connect_returns]) = Established \<and>
   step (run connection [Connect_returns]) (Client_message (Returns ''QQ=='') (Returns ())) =
     (run connection [Connect_returns])
       \<lparr>effects := [Live_connect, Send_realtime_input ''QQ==''], pending := [[]]\<rparr> \<and>
   step ((run connection [Connect_returns])
           \<lparr>responseQueue := [marker], pending := [[fragment ''AAAA'']]\<rparr>)
     (Client_message (Returns ''Qg=='') (Returns ())) =
     (run connection [Connect_returns])
       \<lparr>responseQueue := [], pending := [[fragment ''AAAA'']],
        effects := [Live_connect, Send_realtime_input ''Qg=='']\<rparr> \<and>
   client_waits (run connection [Connect_returns])
     [Client_message (Returns ''QQ=='') (Returns ()), Upstream_message (fragment ''AAAA''),
      Upstream_message marker, Poll 0, Poll 0, Client_message (Returns ''Qg=='') (Returns ())] \<and>
   at_most_one_collection (run connection [Connect_returns])
     [Client_message (Returns ''QQ=='') (Returns ()), Upstream_message (fragment ''AAAA''),
      Upstream_message marker, Poll 0, Poll 0, Client_message (Returns ''Qg=='') (Returns ())]"
proof -
  let ?s = "run connection [Connect_returns]"
  let ?t = "?s\<lparr>responseQueue := [marker], pending := [[fragment ''AAAA'']]\<rparr>"
  let ?evs = "[Client_message (Returns ''QQ=='') (Returns ()), Upstream_message (fragment ''AAAA''),
      Upstream_message marker, Poll 0, Poll 0, Client_message (Returns ''Qg=='') (Returns ())]"
  have p: "phase ?s = Established" "length (pending ?s) \<le> 1" "effects ?s = [Live_connect]"
    "responseQueue ?s = []" "pending ?s = []"
    by (simp_all add: established)
  have pt: "phase ?t = Established"
    by (simp add: established)
  have w: "client_waits ?s ?evs"
    by (simp add: established on_message_def poll_def Let_def fragment_def marker_def
        turn_complete_def forward_def)
  note one = collections_sequential_only_if_client_waits [where s = ?s and b = "''QQ==''"
      and evs = ?evs, THEN conjunct1, THEN mp, OF p(1)]
  note two = collections_sequential_only_if_client_waits [where s = ?t and b = "''Qg==''"
      and evs = "[]", THEN conjunct1, THEN mp, OF pt]
  note seq = collections_sequential_only_if_client_waits [where s = ?s and b = "''QQ==''"
      and evs = ?evs, THEN conjunct2, THEN mp, OF conjI, OF p(2) w]
  from one have 1: "step ?s (Client_message (Returns ''QQ=='') (Returns ())) =
      ?s\<lparr>effects := [Live_connect, Send_realtime_input ''QQ==''], pending := [[]]\<rparr>"
    by (simp add: p)
  from two have 2: "step ?t (Client_message (Returns ''Qg=='') (Returns ())) =
      ?s\<lparr>responseQueue := [], pending := [[fragment ''AAAA'']],
         effects := [Live_connect, Send_realtime_input ''Qg=='']\<rparr>"
    by (simp add: p marker_def turn_complete_def forward_def)
  from p(1) 1 2 w seq show ?thesis
    by (intro conjI)
qed

subsection \<open>Closing and failures\<close>

text \<open>
  C5. The \<open>close\<close> listener sets \<open>closed\<close> and closes the session once, but nothing
  reads \<open>closed\<close>: a collection that is under way keeps polling and forwarding, and the
  upstream callbacks keep sending. Here a client sends audio, a fragment arrives while
  the collection sleeps, the client closes, the collection wakes up and the upstream
  reports its own close: an \<open>Audio\<close> and a \<open>Status\<close> envelope are sent after the
  close. And a client that closes while \<open>ai.live.connect\<close> is still pending finds no
  listener: the session that is then established is never closed.
\<close>

theorem forwarding_continues_after_client_close:
  "effects (run connection
      [Connect_returns,
       Client_message (Returns ''UklGRg=='') (Returns ()),
       Upstream_message (fragment ''AAAA''),
       Client_close,
       Poll 0,
       Upstream_close ''client gone'']) =
     [Live_connect, Send_realtime_input ''UklGRg=='', Session_close,
      Ws_send (Audio ''AAAA''), Ws_send (Status ''Session closed: client gone'')] \<and>
   closed (run connection
      [Connect_returns,
       Client_message (Returns ''UklGRg=='') (Returns ()),
       Upstream_message (fragment ''AAAA''),
       Client_close]) \<and>
   effects (run connection [Client_close, Connect_returns]) = [Live_connect] \<and>
   session (run connection [Client_close, Connect_returns])"
  by (simp add: run_def connection_def on_message_def on_close_def poll_def Let_def fragment_def
      turn_complete_def forward_def ws_send_def)

lemma failed_step:
  assumes "phase s = Failed"
  shows "phase (step s ev) = Failed \<and> session (step s ev) = session s \<and>
         filter is_upstream_call (effects (step s ev)) = filter is_upstream_call (effects s)"
  using assms
  by (cases ev) (simp_all add: ws_send_def poll_phase poll_session poll_upstream_calls)

lemma failed_run:
  "phase s = Failed \<Longrightarrow>
     phase (run s evs) = Failed \<and> session (run s evs) = session s \<and>
     filter is_upstream_call (effects (run s evs)) = filter is_upstream_call (effects s)"
proof (induction evs arbitrary: s)
  case Nil
  then show ?case by (simp add: run_Nil)
next
  case (Cons ev evs)
  from failed_step [OF Cons.prems, of ev] Cons.IH [of "step s ev"]
  show ?case by (simp add: run_Cons)
qed

text \<open>
  C6. When \<open>ai.live.connect\<close> fails, the relay sends the client
  \<open>Error(err.message)\<close> and then closes the client connection. The failure is fatal
  and nothing is retried: whatever happens afterwards, the handler stays in its failed
  state without a session and makes no further upstream call (no second connect, no
  submission).
\<close>

theorem setup_failure_reported_then_closed:
  assumes "phase s = Connecting" and "\<not> session s"
  shows "effects (step s (Connect_throws e)) = effects s @ [Ws_send (Error e), Ws_close] \<and>
         phase (run (step s (Connect_throws e)) evs) = Failed \<and>
         \<not> session (run (step s (Connect_throws e)) evs) \<and>
         filter is_upstream_call (effects (run (step s (Connect_throws e)) evs)) =
           filter is_upstream_call (effects s)"
proof -
  let ?t = "step s (Connect_throws e)"
  have t: "phase ?t = Failed" "session ?t = session s"
    "effects ?t = effects s @ [Ws_send (Error e), Ws_close]"
    using assms by simp_all
  from failed_run [OF t(1), of evs] t assms show ?thesis
    by simp
qed

theorem setup_failure_reported_then_closed_witness:
  "effects (step connection (Connect_throws ''API key not valid'')) =
     [Live_connect, Ws_send (Error ''API key not valid''), Ws_close] \<and>
   phase (run (step connection (Connect_throws ''API key not valid''))
            [Client_message (Returns ''UklGRg=='') (Returns ()), Connect_returns]) = Failed \<and>
   filter is_upstream_call
     (effects (run (step connection (Connect_throws ''API key not valid''))
        [Client_message (Returns ''UklGRg=='') (Returns ()), Connect_returns])) = [Live_connect]"
  using setup_failure_reported_then_closed [of connection "''API key not valid''"
      "[Client_message (Returns ''UklGRg=='') (Returns ()), Connect_returns]"]
  by (simp add: connection_def)

text \<open>
  C7. Once the session is established, an audio message whose conversion
  (\<open>wavefile\<close>) or whose submission (\<open>sendRealtimeInput\<close>) throws makes the relay send
  \<open>Error(e.message)\<close> and nothing else: the connection is not closed and no other
  variable of the handler changes. The client may go on: the next audio message that
  converts is submitted upstream.
\<close>

theorem mid_session_failure_keeps_connection:
  assumes "phase s = Established"
  shows "step s (Client_message (Throws e) submit) =
           s\<lparr>effects := effects s @ [Ws_send (Error e)]\<rparr> \<and>
         step s (Client_message (Returns b) (Throws e)) =
           s\<lparr>effects := effects s @ [Ws_send (Error e)]\<rparr> \<and>
         take (length (effects s) + 2)
           (effects (step (s\<lparr>effects := effects s @ [Ws_send (Error e)]\<rparr>)
              (Client_message (Returns b') (Returns ())))) =
           effects s @ [Ws_send (Error e), Send_realtime_input b']"
  using assms
  by (simp add: on_message_def ws_send_def poll_def Let_def split: list.splits)

theorem mid_session_failure_keeps_connection_witness:
  "phase (run connection [Connect_returns]) = Established \<and>
   effects (run connection
     [Connect_returns,
      Client_message (Throws ''Not a supported format.'') (Returns ()),
      Client_message (Returns ''UklGRg=='') (Throws ''WebSocket is not open''),
      Client_message (Returns ''UklGRg=='') (Returns ())]) =
     [Live_connect, Ws_send (Error ''Not a supported format.''),
      Ws_send (Error ''WebSocket is not open''), Send_realtime_input ''UklGRg==''] \<and>
   Ws_close \<notin> set (effects (run connection
     [Connect_returns,
      Client_message (Throws ''Not a supported format.'') (Returns ()),
      Client_message (Returns ''UklGRg=='') (Throws ''WebSocket is not open''),
      Client_message (Returns ''UklGRg=='') (Returns ())]))"
proof -
  let ?s = "run connection [Connect_returns]"
  have p: "phase ?s = Established"
    by (simp add: run_def connection_def)
  from mid_session_failure_keeps_connection [OF p, of "''Not a supported format.''" "Returns ()"]
  have 1: "step ?s (Client_message (Throws ''Not a supported format.'') (Returns ())) =
      ?s\<lparr>effects := effects ?s @ [Ws_send (Error ''Not a supported format.'')]\<rparr>"
    by blast
  have e: "effects (run connection
     [Connect_returns,
      Client_message (Throws ''Not a supported format.'') (Returns ()),
      Client_message (Returns ''UklGRg=='') (Throws ''WebSocket is not open''),
      Client_message (Returns ''UklGRg=='') (Returns ())]) =
     [Live_connect, Ws_send (Error ''Not a supported format.''),
      Ws_send (Error ''WebSocket is not open''), Send_realtime_input ''UklGRg=='']"
    using 1 by (simp add: run_def connection_def on_message_def ws_send_def poll_def)
  from p e show ?thesis
    by simp
qed

section \<open>Properties of the client\<close>

subsection \<open>Playback scheduling\<close>

lemma plays_0: "plays s evs ! 0 = s"
  by (cases evs) auto

lemma duration_nonneg: "0 \<le> duration b"
  by (simp add: duration_def)

lemma playAudioBuffer_Returns:
  "outputAudioContext s \<noteq> None \<Longrightarrow>
     \<exists>s'. playAudioBuffer now b s = Returns s' \<and> outputAudioContext s' = outputAudioContext s \<and>
       started s' = started s @ [(max (nextStartTime s) now, b)] \<and>
       nextStartTime s' = max (nextStartTime s) now + duration b"
  by (auto simp add: playAudioBuffer_def Let_def)

lemma plays_length: "outputAudioContext s \<noteq> None \<Longrightarrow> length (plays s evs) = Suc (length evs)"
proof (induction evs arbitrary: s)
  case Nil
  then show ?case by simp
next
  case (Cons ev evs)
  obtain now b where ev: "ev = (now, b)" by (cases ev)
  from playAudioBuffer_Returns [OF Cons.prems, of now b] obtain s' where
    s': "playAudioBuffer now b s = Returns s'" "outputAudioContext s' = outputAudioContext s"
    by blast
  with Cons.prems Cons.IH [of s'] ev show ?case by simp
qed

lemma plays_step:
  "outputAudioContext s \<noteq> None \<Longrightarrow> i < length evs \<Longrightarrow>
     started (plays s evs ! Suc i) =
       started (plays s evs ! i) @
         [(max (nextStartTime (plays s evs ! i)) (fst (evs ! i)), snd (evs ! i))] \<and>
     nextStartTime (plays s evs ! Suc i) =
       max (nextStartTime (plays s evs ! i)) (fst (evs ! i)) + duration (snd (evs ! i))"
proof (induction evs arbitrary: s i)
  case Nil
  then show ?case by simp
next
  case (Cons ev evs)
  obtain now b where ev: "ev = (now, b)" by (cases ev)
  from playAudioBuffer_Returns [OF Cons.prems(1), of now b] obtain s' where
    s': "playAudioBuffer now b s = Returns s'" "outputAudioContext s' = outputAudioContext s"
      "started s' = started s @ [(max (nextStartTime s) now, b)]"
      "nextStartTime s' = max (nextStartTime s) now + duration b"
    by blast
  show ?case
  proof (cases i)
    case 0
    with ev s' show ?thesis by (simp add: plays_0)
  next
    case (Suc j)
    with Cons.prems have j: "j < length evs" by simp
    from s'(2) Cons.prems(1) have "outputAudioContext s' \<noteq> None" by simp
    from Cons.IH [OF this j] ev s'(1) Suc show ?thesis by simp
  qed
qed

text \<open>
  C1. For every sequence of decoded fragments handed to \<open>playAudioBuffer\<close> (with an
  output context in place), each with the clock reading at its call: every call
  returns; the \<open>i\<close>-th fragment is started at \<open>max(nextStartTime, now)\<close>, and
  \<open>nextStartTime\<close> is set at once to that start time plus the fragment's duration; so
  \<open>nextStartTime\<close> never decreases, and from the second fragment on each start time is
  at least the previous start time plus the previous duration: fragments never overlap.
\<close>

theorem playback_starts_never_overlap:
  assumes "outputAudioContext s \<noteq> None"
  shows "length (plays s evs) = Suc (length evs) \<and>
    (\<forall>i<length evs.
       started (plays s evs ! Suc i) =
         started (plays s evs ! i) @ [(start_time s evs i, snd (evs ! i))] \<and>
       start_time s evs i = max (nextStartTime (plays s evs ! i)) (fst (evs ! i)) \<and>
       nextStartTime (plays s evs ! Suc i) = start_time s evs i + duration (snd (evs ! i)) \<and>
       nextStartTime (plays s evs ! i) \<le> nextStartTime (plays s evs ! Suc i) \<and>
       (0 < i \<longrightarrow>
          start_time s evs (i - 1) + duration (snd (evs ! (i - 1))) \<le> start_time s evs i))"
proof (intro conjI allI impI)
  show "length (plays s evs) = Suc (length evs)"
    by (rule plays_length [OF assms])
next
  fix i assume i: "i < length evs"
  from plays_step [OF assms i]
  show "started (plays s evs ! Suc i) =
         started (plays s evs ! i) @ [(start_time s evs i, snd (evs ! i))]"
    by (simp add: start_time_def)
next
  fix i assume i: "i < length evs"
  from plays_step [OF assms i]
  show "start_time s evs i = max (nextStartTime (plays s evs ! i)) (fst (evs ! i))"
    by (simp add: start_time_def)
next
  fix i assume i: "i < length evs"
  from plays_step [OF assms i]
  show "nextStartTime (plays s evs ! Suc i) = start_time s evs i + duration (snd (evs ! i))"
    by (simp add: start_time_def)
next
  fix i assume i: "i < length evs"
  from plays_step [OF assms i] duration_nonneg [of "snd (evs ! i)"]
  show "nextStartTime (plays s evs ! i) \<le> nextStartTime (plays s evs ! Suc i)"
    by simp
next
  fix i assume i: "i < length evs" and pos: "0 < i"
  then obtain j where j: "i = Suc j" "j < length evs"
    by (cases i) auto
  from plays_step [OF assms j(2)] j(1)
  have prev: "start_time s evs (i - 1) + duration (snd (evs ! (i - 1))) =
      nextStartTime (plays s evs ! i)"
    by (simp add: start_time_def)
  from plays_step [OF assms i]
  have "start_time s evs i = max (nextStartTime (plays s evs ! i)) (fst (evs ! i))"
    by (simp add: start_time_def)
  with prev show "start_time s evs (i - 1) + duration (snd (evs ! (i - 1))) \<le> start_time s evs i"
    by simp
qed

lemma duration_silence: "duration (silence n) = real n / 24000"
  by (simp add: duration_def silence_def)

lemma initAudio_mounted:
  "initAudio 0 mounted =
     mounted\<lparr>inputAudioContext := Some Suspended, outputAudioContext := Some Suspended\<rparr>"
  by (simp add: initAudio_def mounted_def stale_def Let_def)

theorem playback_starts_never_overlap_witness:
  "outputAudioContext (initAudio 0 mounted) \<noteq> None \<and>
   map nextStartTime
     (plays (initAudio 0 mounted) [(1 / 2, silence 24000), (1, silence 12000), (3, silence 12000)]) =
     [0, 3 / 2, 2, 7 / 2] \<and>
   start_time (initAudio 0 mounted)
     [(1 / 2, silence 24000), (1, silence 12000), (3, silence 12000)] 0 +
     duration (silence 24000)
     \<le> start_time (initAudio 0 mounted)
         [(1 / 2, silence 24000), (1, silence 12000), (3, silence 12000)] 1"
proof -
  let ?s = "initAudio 0 mounted"
  let ?evs = "[(1 / 2 :: real, silence 24000), (1, silence 12000), (3, silence 12000)]"
  have c: "outputAudioContext ?s \<noteq> None"
    by (simp add: initAudio_mounted)
  have n: "map nextStartTime (plays ?s ?evs) = [0, 3 / 2, 2, 7 / 2]"
    unfolding initAudio_mounted
    by (simp add: mounted_def playAudioBuffer_def duration_silence)
  note t = playback_starts_never_overlap [OF c, of ?evs, THEN conjunct2, THEN spec, THEN mp,
      THEN conjunct2, THEN conjunct2, THEN conjunct2, THEN conjunct2, THEN mp]
  have "start_time ?s ?evs (1 - 1) + duration (snd (?evs ! (1 - 1))) \<le> start_time ?s ?evs 1"
    by (rule t) simp_all
  then have o: "start_time ?s ?evs 0 + duration (silence 24000) \<le> start_time ?s ?evs 1"
    by simp
  from c n o show ?thesis
    by (intro conjI)
qed

subsection \<open>Decoding\<close>

lemma length_float32_of_bytes: "length (float32_of_bytes bs) = length bs div 4"
  by (induction bs rule: float32_of_bytes.induct) simp_all

text \<open>
  C3, as stated, fails in its last part. When both paths fail the error thrown carries
  the reason of the container decode only: three bytes (the \<open>Float32Array\<close>
  constructor refuses them) and no byte at all (\<open>createBuffer\<close> refuses a length of
  zero) fail the fallback for different reasons and yield the same error.
\<close>

theorem decode_error_omits_fallback_reason_counterexample:
  "float32_fallback (initAudio 0 mounted) [82, 73, 70] =
     Throws ''byte length of Float32Array should be a multiple of 4'' \<and>
   float32_fallback (initAudio 0 mounted) [] =
     Throws ''The number of frames provided (0) is less than or equal to the minimum bound (0).'' \<and>
   decodeAudioData no_container [82, 73, 70] (initAudio 0 mounted) =
     Throws ''Audio decode failed: Unable to decode audio data'' \<and>
   decodeAudioData no_container [] (initAudio 0 mounted) =
     Throws ''Audio decode failed: Unable to decode audio data''"
  by (simp add: decodeAudioData_def float32_fallback_def no_container_def initAudio_def
      mounted_def stale_def Let_def)

text \<open>
  C3, amended. With an output context in place, the decode operation tries the
  platform's container decode first and returns its buffer when it succeeds. When it
  fails and the bytes are a positive multiple of four in number, they are reinterpreted
  as 32-bit floats, four bytes each, in a mono buffer at 24 kHz. When both paths fail
  the operation throws an error whose message is \<open>Audio decode failed: \<close> followed by
  the reason of the container decode; the reason of the fallback is not carried. The
  \<open>onmessage\<close> handler catches that error: it shows it as the client's \<open>error\<close>
  and changes nothing else, so that later fragments are still decoded and played.
\<close>

theorem decode_container_then_float32_fallback:
  assumes "outputAudioContext s \<noteq> None"
  shows "(ctxDecode arrayBuffer = Returns audioBuffer \<longrightarrow>
            decodeAudioData ctxDecode arrayBuffer s = Returns audioBuffer) \<and>
         (ctxDecode arrayBuffer = Throws err \<and> arrayBuffer \<noteq> [] \<and>
          length arrayBuffer mod 4 = 0 \<longrightarrow>
            decodeAudioData ctxDecode arrayBuffer s =
              Returns \<lparr>numberOfChannels = 1, sampleRate = 24000,
                       channel0 = float32_of_bytes arrayBuffer\<rparr> \<and>
            length (float32_of_bytes arrayBuffer) = length arrayBuffer div 4) \<and>
         (ctxDecode arrayBuffer = Throws err \<and>
          float32_fallback s arrayBuffer = Throws fallbackErr \<longrightarrow>
            decodeAudioData ctxDecode arrayBuffer s = Throws (''Audio decode failed: '' @ err) \<and>
            (d \<noteq> [] \<longrightarrow>
               ws_onmessage ctxDecode now (Audio d) (Returns arrayBuffer) s =
                 s\<lparr>error := ''Error handling message: Audio decode failed: '' @ err\<rparr>))"
  using assms
  by (auto simp add: decodeAudioData_def float32_fallback_def length_float32_of_bytes
      ws_onmessage_def split: option.splits)

theorem decode_container_then_float32_fallback_witness:
  "outputAudioContext (initAudio 0 mounted) \<noteq> None \<and>
   no_container [0, 0, 128, 63, 0, 0, 0, 191] = Throws ''Unable to decode audio data'' \<and>
   decodeAudioData no_container [0, 0, 128, 63, 0, 0, 0, 191] (initAudio 0 mounted) =
     Returns \<lparr>numberOfChannels = 1, sampleRate = 24000, channel0 = [0x3F800000, 0xBF000000]\<rparr> \<and>
   float32_fallback (initAudio 0 mounted) [0, 0, 128] =
     Throws ''byte length of Float32Array should be a multiple of 4'' \<and>
   decodeAudioData no_container [0, 0, 128] (initAudio 0 mounted) =
     Throws ''Audio decode failed: Unable to decode audio data'' \<and>
   ws_onmessage no_container 0 (Audio ''AACA'') (Returns [0, 0, 128]) (initAudio 0 mounted) =
     (initAudio 0 mounted)
       \<lparr>error := ''Error handling message: Audio decode failed: Unable to decode audio data''\<rparr>"
proof -
  let ?s = "initAudio 0 mounted"
  have c: "outputAudioContext ?s \<noteq> None"
    by (simp add: initAudio_mounted)
  have d: "no_container [0, 0, 128, 63, 0, 0, 0, 191] = Throws ''Unable to decode audio data''"
    "no_container [0, 0, 128] = Throws ''Unable to decode audio data''"
    by (simp_all add: no_container_def)
  have f: "float32_fallback ?s [0, 0, 128] =
      Throws ''byte length of Float32Array should be a multiple of 4''"
    by (simp add: float32_fallback_def)
  have w: "float32_of_bytes [0, 0, 128, 63, 0, 0, 0, 191] = [0x3F800000, 0xBF000000]"
    by simp
  from decode_container_then_float32_fallback [OF c, of no_container
      "[0, 0, 128, 63, 0, 0, 0, 191]" undefined "''Unable to decode audio data''"] d(1) w
  have 1: "decodeAudioData no_container [0, 0, 128, 63, 0, 0, 0, 191] ?s =
      Returns \<lparr>numberOfChannels = 1, sampleRate = 24000, channel0 = [0x3F800000, 0xBF000000]\<rparr>"
    by simp
  from decode_container_then_float32_fallback [OF c, of no_container "[0, 0, 128]" undefined
      "''Unable to decode audio data''"
      "''byte length of Float32Array should be a multiple of 4''" "''AACA''" 0] d(2) f
  have 2: "decodeAudioData no_container [0, 0, 128] ?s =
      Throws ''Audio decode failed: Unable to decode audio data''"
    "ws_onmessage no_container 0 (Audio ''AACA'') (Returns [0, 0, 128]) ?s =
     ?s\<lparr>error := ''Error handling message: Audio decode failed: Unable to decode audio data''\<rparr>"
    by simp_all
  from c d(1) 1 f 2 show ?thesis
    by blast
qed


subsection \<open>Capture\<close>

lemma sint_to_int16: "sint (to_int16 x) = max (- 32768) (min 32767 \<lfloor>x * 32767\<rfloor>)"
proof -
  let ?k = "max (- 32768) (min 32767 \<lfloor>x * 32767\<rfloor>)"
  have "- (2 ^ 15) \<le> ?k" "?k < 2 ^ 15"
    by simp_all
  then have "signed_take_bit 15 ?k = ?k"
    by (rule signed_take_bit_int_eq_self)
  then show ?thesis
    by (simp add: to_int16_def sint_sbintrunc')
qed

text \<open>
  C8. The frame built from a captured buffer is a single-channel, 16 kHz, 16-bit PCM
  container, and the signed 16-bit value stored for every sample \<open>x\<close> is
  \<open>clamp(floor(x * 32767), -32768, 32767)\<close>: the store into the \<open>Int16Array\<close> never
  wraps.
\<close>

theorem encode_floor_clamp_pcm16:
  "wavChannels (encode pcmData) = 1 \<and> wavSampleRate (encode pcmData) = 16000 \<and>
   wavBitDepth (encode pcmData) = ''16'' \<and>
   map sint (wavSamples (encode pcmData)) =
     map (\<lambda>x. max (- 32768) (min 32767 \<lfloor>x * 32767\<rfloor>)) pcmData"
  by (simp add: encode_def sint_to_int16)

lemma startRecording_guard:
  "isRecording s \<Longrightarrow> startRecording_call now s = s \<and> startRecording now getUserMedia s = s"
  by (simp add: startRecording_call_def startRecording_def)

lemma startRecording_mounted:
  "startRecording 0 (Returns ()) mounted =
     \<lparr>isRecording = True, status = ''Recording... Capturing PCM chunks.'', error = [],
      inputAudioContext = Some Running, outputAudioContext = Some Suspended,
      nextStartTime = 0, started = [], sources = {}, mediaStream = True, sourceNode = True,
      scriptProcessorNode = True, ws = Some CONNECTING, wsSent = [], resuming = 0,
      requesting = 0, processors = 1\<rparr>"
  by (simp add: startRecording_def startRecording_settled_def startRecording_resumed_def
      startRecording_call_def initAudio_def stale_def Let_def connectWebSocket_def mounted_def)

lemma first_start_pending:
  "startRecording_resumed (startRecording_call 0 mounted) =
     \<lparr>isRecording = False, status = ''Requesting microphone access...'', error = [],
      inputAudioContext = Some Running, outputAudioContext = Some Suspended,
      nextStartTime = 0, started = [], sources = {}, mediaStream = False, sourceNode = False,
      scriptProcessorNode = False, ws = None, wsSent = [], resuming = 0, requesting = 1,
      processors = 0\<rparr>"
  by (simp add: startRecording_resumed_def startRecording_call_def initAudio_def stale_def
      Let_def mounted_def)

lemma second_start_pending:
  "startRecording_resumed
     (startRecording_call 2 (startRecording_resumed (startRecording_call 0 mounted))) =
     \<lparr>isRecording = False, status = ''Requesting microphone access...'', error = [],
      inputAudioContext = Some Running, outputAudioContext = Some Suspended,
      nextStartTime = 2, started = [], sources = {}, mediaStream = False, sourceNode = False,
      scriptProcessorNode = False, ws = None, wsSent = [], resuming = 0, requesting = 2,
      processors = 0\<rparr>"
  unfolding first_start_pending
  by (simp add: startRecording_resumed_def startRecording_call_def initAudio_def stale_def)

lemma started_twice_state:
  "started_twice =
     \<lparr>isRecording = True, status = ''Recording... Capturing PCM chunks.'', error = [],
      inputAudioContext = Some Running, outputAudioContext = Some Suspended,
      nextStartTime = 2, started = [], sources = {}, mediaStream = True, sourceNode = True,
      scriptProcessorNode = True, ws = Some CONNECTING, wsSent = [], resuming = 0,
      requesting = 0, processors = 2\<rparr>"
  unfolding started_twice_def second_start_pending
  by (simp add: startRecording_settled_def connectWebSocket_def)

text \<open>
  C9. The guard of line 328 makes a start a no-op only once \<open>isRecordingRef.current\<close>
  is set, which happens at line 381, after the awaits of lines 331 and 335. A second
  call of \<open>startRecording\<close> that comes while the first awaits \<open>getUserMedia\<close> (the
  Start button is still enabled: \<open>isRecording\<close> is set at line 380) passes the guard.
  Both calls then run to their end: two requests for the microphone are pending at
  once, two script processors end up connected, and from then on every captured buffer
  is sent twice, where a single start sends it once.
\<close>

theorem duplicate_start_doubles_capture:
  "\<not> isRecording (startRecording_resumed (startRecording_call 0 mounted)) \<and>
   requesting
     (startRecording_resumed
        (startRecording_call 2 (startRecording_resumed (startRecording_call 0 mounted)))) = 2 \<and>
   isRecording started_twice \<and>
   processors started_twice = 2 \<and>
   wsSent (audio_tick [1 / 2, - 1] (started_twice\<lparr>ws := Some OPEN\<rparr>)) =
     [encode [1 / 2, - 1], encode [1 / 2, - 1]] \<and>
   processors (startRecording 0 (Returns ()) mounted) = 1 \<and>
   wsSent (audio_tick [1 / 2, - 1] ((startRecording 0 (Returns ()) mounted)\<lparr>ws := Some OPEN\<rparr>)) =
     [encode [1 / 2, - 1]]"
proof -
  have a: "\<not> isRecording (startRecording_resumed (startRecording_call 0 mounted))"
    by (simp add: first_start_pending)
  have b: "requesting
     (startRecording_resumed
        (startRecording_call 2 (startRecording_resumed (startRecording_call 0 mounted)))) = 2"
    by (simp add: second_start_pending)
  have c: "isRecording started_twice" "processors started_twice = 2"
    by (simp_all add: started_twice_state)
  have d: "wsSent (audio_tick [1 / 2, - 1] (started_twice\<lparr>ws := Some OPEN\<rparr>)) =
     [encode [1 / 2, - 1], encode [1 / 2, - 1]]"
    by (simp add: started_twice_state audio_tick_def onaudioprocess_def eval_nat_numeral)
  have e: "processors (startRecording 0 (Returns ()) mounted) = 1"
    by (simp add: startRecording_mounted)
  have f: "wsSent (audio_tick [1 / 2, - 1]
      ((startRecording 0 (Returns ()) mounted)\<lparr>ws := Some OPEN\<rparr>)) = [encode [1 / 2, - 1]]"
    by (simp add: startRecording_mounted audio_tick_def onaudioprocess_def)
  from a b c d e f show ?thesis
    by (intro conjI)
qed

text \<open>
  C10. A capture tick that fires while the client's socket is not \<open>OPEN\<close> (no socket
  yet, or one that is connecting, closing or closed) leaves the whole state of the
  client as it was: the frame is not sent, not kept anywhere for later, and neither
  \<open>error\<close> nor \<open>status\<close> changes. (With the socket open and capture running the frame
  is sent.)
\<close>

theorem frame_dropped_unless_socket_open:
  "(ws s \<noteq> Some OPEN \<longrightarrow> onaudioprocess pcmData s = s) \<and>
   (isRecording s \<and> ws s = Some OPEN \<longrightarrow>
      onaudioprocess pcmData s = s\<lparr>wsSent := wsSent s @ [encode pcmData]\<rparr>)"
  by (simp add: onaudioprocess_def Let_def)

theorem frame_dropped_unless_socket_open_witness:
  "isRecording (startRecording 0 (Returns ()) mounted) \<and>
   ws (startRecording 0 (Returns ()) mounted) = Some CONNECTING \<and>
   onaudioprocess [1 / 2, - 1] (startRecording 0 (Returns ()) mounted) =
     startRecording 0 (Returns ()) mounted \<and>
   wsSent (onaudioprocess [1 / 2, - 1] ((startRecording 0 (Returns ()) mounted)\<lparr>ws := Some OPEN\<rparr>)) =
     [encode [1 / 2, - 1]]"
proof -
  let ?s = "startRecording 0 (Returns ()) mounted"
  have r: "isRecording ?s" "ws ?s = Some CONNECTING" "wsSent ?s = []"
    by (simp_all add: startRecording_mounted)
  from frame_dropped_unless_socket_open [of ?s "[1 / 2, - 1]"] r
  have 1: "onaudioprocess [1 / 2, - 1] ?s = ?s"
    by simp
  from frame_dropped_unless_socket_open [of "?s\<lparr>ws := Some OPEN\<rparr>" "[1 / 2, - 1]"] r
  have 2: "wsSent (onaudioprocess [1 / 2, - 1] (?s\<lparr>ws := Some OPEN\<rparr>)) = [encode [1 / 2, - 1]]"
    by simp
  from r 1 2 show ?thesis
    by blast
qed

end
